theory Spec2Isabelle
  imports Complex_Main "HOL-Library.AList"
begin

section \<open>Data model of the coupling registry (src/cleo/registry.py)\<close>

text \<open>
  Python compares lights, light-dependent devices and neuron groups by object identity.
  Here each is a record of the attributes the registry reads; two objects are the same
  when all their fields agree, so distinct objects are given distinct names.
  Physical quantities are real numbers in SI units (Brian2's unit system is outside the
  repository).
\<close>

type_synonym coords = "(real \<times> real \<times> real) list"

record neuron_group =
  ng_name :: string
  ng_N :: nat
  ng_coords :: coords

text \<open>
  The class Light is not part of the sources: the registry reads \<open>light.n\<close>,
  \<open>light.wavelength\<close>, \<open>light.scan_freq\<close>, calls \<open>light.transmittance(coords)\<close>
  and formats the light itself into an error message. \<open>transmittance l cs k j\<close> is the
  entry for the light's \<open>k\<close>-th element and the \<open>j\<close>-th point of the array that call
  returns; \<open>ravel\<close> lays the array out row by row, the order of the edges of the light's
  slice.
\<close>

record light =
  light_repr :: string
  light_n :: nat
  wavelength :: real
  scan_freq :: real
  transmittance :: "coords \<Rightarrow> nat \<Rightarrow> nat \<Rightarrow> real"

record ldd =
  ldd_name :: string
  epsilon :: "real \<Rightarrow> real"
  light_agg_ngs :: "string \<rightharpoonup> neuron_group"

text \<open>
  The scan period, the raster dwell time and the scale are quotients whose divisor can be
  zero. numpy raises nothing there: the quotient is an infinity or nan. A \<open>float\<close> is a
  finite value (a real, without rounding), an infinity or nan; zero has no sign, so a
  quotient by zero takes the sign of the dividend and a quotient by an infinity is 0.
\<close>

datatype float = Finite real | PInf | NInf | NaN

fun float_div :: "float \<Rightarrow> float \<Rightarrow> float" where
  "float_div (Finite a) (Finite b) =
     (if b \<noteq> 0 then Finite (a / b) else if 0 < a then PInf else if a < 0 then NInf else NaN)"
| "float_div (Finite a) PInf = Finite 0"
| "float_div (Finite a) NInf = Finite 0"
| "float_div PInf (Finite b) = (if 0 \<le> b then PInf else NInf)"
| "float_div NInf (Finite b) = (if 0 \<le> b then NInf else PInf)"
| "float_div _ _ = NaN"

fun float_mul :: "float \<Rightarrow> float \<Rightarrow> float" where
  "float_mul (Finite a) (Finite b) = Finite (a * b)"
| "float_mul NaN _ = NaN"
| "float_mul _ NaN = NaN"
| "float_mul (Finite a) PInf = (if 0 < a then PInf else if a < 0 then NInf else NaN)"
| "float_mul (Finite a) NInf = (if 0 < a then NInf else if a < 0 then PInf else NaN)"
| "float_mul PInf (Finite b) = (if 0 < b then PInf else if b < 0 then NInf else NaN)"
| "float_mul NInf (Finite b) = (if 0 < b then NInf else if b < 0 then PInf else NaN)"
| "float_mul PInf PInf = PInf"
| "float_mul PInf NInf = NInf"
| "float_mul NInf PInf = NInf"
| "float_mul NInf NInf = PInf"

fun float_add :: "float \<Rightarrow> float \<Rightarrow> float" where
  "float_add (Finite a) (Finite b) = Finite (a + b)"
| "float_add NaN _ = NaN"
| "float_add _ NaN = NaN"
| "float_add PInf NInf = NaN"
| "float_add NInf PInf = NaN"
| "float_add PInf _ = PInf"
| "float_add _ PInf = PInf"
| "float_add NInf _ = NInf"
| "float_add _ NInf = NInf"

fun float_neg :: "float \<Rightarrow> float" where
  "float_neg (Finite a) = Finite (- a)"
| "float_neg PInf = NInf"
| "float_neg NInf = PInf"
| "float_neg NaN = NaN"

definition float_sub :: "float \<Rightarrow> float \<Rightarrow> float" where
  "float_sub x y = float_add x (float_neg y)"

fun float_greater :: "float \<Rightarrow> float \<Rightarrow> bool" where
  "float_greater (Finite a) (Finite b) = (a > b)"
| "float_greater NaN _ = False"
| "float_greater _ NaN = False"
| "float_greater _ PInf = False"
| "float_greater NInf _ = False"
| "float_greater PInf _ = True"
| "float_greater (Finite a) NInf = True"

text \<open>
  A Synapses object built with \<open>connect()\<close> has one edge per (source element, target
  element). Each variable of \<open>light_prop_model\<close> is a matrix: row \<open>i\<close> holds the edges
  leaving source element \<open>i\<close>.
\<close>

record synapses =
  syn_T :: "real list list"
  syn_scale :: "float list list"
  syn_epsilon :: "real list list"
  syn_Ephoton :: "real list list"
  syn_raster_enable :: "real list list"
  syn_scan_period :: "float list list"
  syn_raster_dwell_time :: "float list list"

datatype brian_object = LightSourceNG | LightPropSyn ldd neuron_group

datatype error = ValueError string | KeyError | IndexError | AssertionError | BrianError

record registry =
  subgroup_idx_for_light :: "light \<rightharpoonup> nat \<times> nat"
  light_source_ng :: "real list option"
  ldds_for_ng :: "neuron_group \<rightharpoonup> ldd set"
  lights_for_ng :: "neuron_group \<rightharpoonup> light set"
  light_prop_syns :: "((ldd \<times> neuron_group) \<times> synapses) list"
  connections :: "(light \<times> ldd \<times> neuron_group) set"
  raster_fov :: real
  raster_enable :: int
  brian_objects :: "brian_object set"
  warnings_emitted :: "string list"
  defaultclock_dt :: real

text \<open>
  \<open>light_prop_syns\<close> is a dict the code iterates over, so it is an association list
  in insertion order; the other dicts are only looked up and are maps.
  \<open>light_source_ng\<close> is the variable \<open>Irr0\<close> of the NeuronGroup of all light sources (its
  \<open>N\<close> is the length), \<open>None\<close> before the first registration. A slice is the pair
  (start, stop). \<open>brian_objects\<close> stands for the registry's set and for the network,
  which receive the same additions and removals. \<open>warnings_emitted\<close> records the calls
  of \<open>warnings.warn\<close>; \<open>defaultclock_dt\<close> is Brian2's global step size.
\<close>

definition fresh :: "real \<Rightarrow> registry" where
  "fresh dt =
     \<lparr>subgroup_idx_for_light = Map.empty, light_source_ng = None,
      ldds_for_ng = Map.empty, lights_for_ng = Map.empty,
      light_prop_syns = [], connections = {},
      raster_fov = 500 * (1 / 10 ^ 6), raster_enable = 0,
      brian_objects = {}, warnings_emitted = [], defaultclock_dt = dt\<rparr>"

subsection \<open>Brian2 assignments\<close>

text \<open>\<open>var = v\<close> writes every edge; \<open>var[i_source, :] = v\<close> writes the rows of the slice.\<close>

definition set_all :: "'a \<Rightarrow> 'a list list \<Rightarrow> 'a list list" where
  "set_all v rows = map (map (\<lambda>_. v)) rows"

definition set_rows ::
  "nat \<times> nat \<Rightarrow> (nat \<Rightarrow> nat \<Rightarrow> real) \<Rightarrow> real list list \<Rightarrow> real list list" where
  "set_rows i_source f rows =
     map (\<lambda>i. if fst i_source \<le> i \<and> i < snd i_source
              then map (f (i - fst i_source)) [0..<length (rows ! i)]
              else rows ! i)
         [0..<length rows]"

definition Synapses :: "nat \<Rightarrow> nat \<Rightarrow> synapses" where
  "Synapses n_pre n_post =
     (let z = replicate n_pre (replicate n_post 0);
          zf = replicate n_pre (replicate n_post (Finite 0)) in
      \<lparr>syn_T = z, syn_scale = zf, syn_epsilon = z, syn_Ephoton = z,
       syn_raster_enable = z, syn_scan_period = zf, syn_raster_dwell_time = zf\<rparr>)"

definition add_brian_object :: "registry \<Rightarrow> brian_object \<Rightarrow> registry" where
  "add_brian_object s obj = s\<lparr>brian_objects := insert obj (brian_objects s)\<rparr>"

definition remove_brian_object :: "registry \<Rightarrow> brian_object \<Rightarrow> error + registry" where
  "remove_brian_object s obj =
     (if obj \<in> brian_objects s then Inr (s\<lparr>brian_objects := brian_objects s - {obj}\<rparr>)
      else Inl KeyError)"

subsection \<open>Connecting a light to a light-dependent device\<close>

definition get_or_create_light_prop_syn ::
  "registry \<Rightarrow> ldd \<Rightarrow> neuron_group \<Rightarrow> error + (synapses \<times> registry)" where
  "get_or_create_light_prop_syn s ldd ng =
     (case map_of (light_prop_syns s) (ldd, ng) of
        Some syn \<Rightarrow> Inr (syn, s)
      | None \<Rightarrow>
          (case light_agg_ngs ldd (ng_name ng) of
             None \<Rightarrow> Inl KeyError
           | Some light_agg_ng \<Rightarrow>
               (case light_source_ng s of
                  None \<Rightarrow> Inl BrianError
                | Some src \<Rightarrow>
                    let syn0 = Synapses (length src) (ng_N light_agg_ng);
                        syn = syn0\<lparr>syn_Ephoton := set_all 1 (syn_Ephoton syn0)\<rparr>;
                        s1 = add_brian_object s (LightPropSyn ldd ng)
                    in Inr (syn, s1\<lparr>light_prop_syns := light_prop_syns s1 @ [((ldd, ng), syn)]\<rparr>))))"

definition coords_from_ng :: "neuron_group \<Rightarrow> coords" where
  "coords_from_ng ng = ng_coords ng"

definition already_connected :: "light \<Rightarrow> ldd \<Rightarrow> neuron_group \<Rightarrow> string" where
  "already_connected light ldd ng =
     light_repr light @ '' already connected to '' @ ldd_name ldd @ '' for '' @ ng_name ng"

definition write_edges :: "registry \<Rightarrow> light \<Rightarrow> neuron_group \<Rightarrow> real \<Rightarrow> nat \<times> nat \<Rightarrow> synapses \<Rightarrow> synapses" where
  "write_edges s light ng eps i_source syn =
     (let syn1 = syn\<lparr>syn_epsilon := set_rows i_source (\<lambda>_ _. eps) (syn_epsilon syn)\<rparr>;
          syn2 = syn1\<lparr>syn_T := set_rows i_source (transmittance light (coords_from_ng ng)) (syn_T syn1)\<rparr>;
          syn3 = syn2\<lparr>syn_scan_period :=
                   set_all (float_div (Finite 1) (Finite (scan_freq light))) (syn_scan_period syn2)\<rparr>;
          syn4 = syn3\<lparr>syn_raster_dwell_time :=
                   set_all (float_div
                              (float_mul
                                 (float_div (Finite (pi * (1 / 10 ^ 10)))
                                    (Finite (pi * (raster_fov s / 2) ^ 2)))
                                 (Finite 1))
                              (Finite (scan_freq light)))
                     (syn_raster_dwell_time syn3)\<rparr>;
          syn5 = syn4\<lparr>syn_scale :=
                   map (map (\<lambda>dwell.
                          float_add (Finite 1)
                            (float_mul
                               (Finite (if float_greater (Finite (defaultclock_dt s)) dwell
                                        then 1 else 0))
                               (float_sub (float_div (Finite (defaultclock_dt s)) dwell)
                                  (Finite 1)))))
                     (syn_raster_dwell_time syn4)\<rparr>;
          syn6 = syn5\<lparr>syn_raster_enable := set_all (of_int (raster_enable s)) (syn_raster_enable syn5)\<rparr>
      in syn6\<lparr>syn_Ephoton :=
                set_rows i_source (\<lambda>_ _. 663 / 10 ^ 36 * (2998 * 10 ^ 5) / wavelength light)
                  (syn_Ephoton syn6)\<rparr>)"

text \<open>
  \<open>connect_light_to_ldd_for_ng\<close>. An exception is the value \<open>Inl\<close>; the registry a raising
  call leaves behind is not modelled. \<open>write_edges\<close> is the block of assignments between
  the look-up of the slice and the insertion into \<open>connections\<close>; the Synapses object is
  shared with the table, so the written object is stored back under its key.
\<close>

definition connect_light_to_ldd_for_ng ::
  "registry \<Rightarrow> light \<Rightarrow> ldd \<Rightarrow> neuron_group \<Rightarrow> error + registry" where
  "connect_light_to_ldd_for_ng s light ldd ng =
     (let eps = epsilon ldd (wavelength light) in
      if eps = 0 then Inr s
      else
        (case get_or_create_light_prop_syn s ldd ng of
           Inl e \<Rightarrow> Inl e
         | Inr (light_prop_syn, s1) \<Rightarrow>
             if (light, ldd, ng) \<in> connections s1
             then Inl (ValueError (already_connected light ldd ng))
             else
               (case subgroup_idx_for_light s1 light of
                  None \<Rightarrow> Inl KeyError
                | Some i_source \<Rightarrow>
                    Inr (s1\<lparr>light_prop_syns :=
                               AList.update (ldd, ng)
                                 (write_edges s1 light ng eps i_source light_prop_syn)
                                 (light_prop_syns s1),
                             connections := insert (light, ldd, ng) (connections s1)\<rparr>))))"

subsection \<open>The field of view\<close>

definition fov_warning :: string where
  "fov_warning = ''Warning: cleo currently supports use of single scanning fov in simulation, the latest update parameter will be used''"

definition update_fov :: "registry \<Rightarrow> real \<Rightarrow> registry" where
  "update_fov s new_fov =
     (let s1 = s\<lparr>raster_enable := 1\<rparr> in
      if raster_fov s1 \<noteq> new_fov
      then s1\<lparr>raster_fov := new_fov, warnings_emitted := warnings_emitted s1 @ [fov_warning]\<rparr>
      else s1)"

subsection \<open>Registration\<close>

text \<open>
  Python iterates a set in an order the language does not fix. Each loop over a set takes
  the order as a list: \<open>iterates xs A\<close> says that \<open>xs\<close> lists the elements of \<open>A\<close>, each
  once. \<open>members m k\<close> is \<open>m.get(k, set())\<close>.
\<close>

definition iterates :: "'a list \<Rightarrow> 'a set \<Rightarrow> bool" where
  "iterates xs A \<longleftrightarrow> distinct xs \<and> set xs = A"

definition members :: "('k \<rightharpoonup> 'v set) \<Rightarrow> 'k \<Rightarrow> 'v set" where
  "members m k = (case m k of None \<Rightarrow> {} | Some A \<Rightarrow> A)"

fun connect_lights :: "registry \<Rightarrow> light list \<Rightarrow> ldd \<Rightarrow> neuron_group \<Rightarrow> error + registry" where
  "connect_lights s [] ldd ng = Inr s"
| "connect_lights s (light # lights) ldd ng =
     (case connect_light_to_ldd_for_ng s light ldd ng of
        Inl e \<Rightarrow> Inl e
      | Inr s' \<Rightarrow> connect_lights s' lights ldd ng)"

definition register_ldd ::
  "registry \<Rightarrow> ldd \<Rightarrow> neuron_group \<Rightarrow> light list \<Rightarrow> error + registry" where
  "register_ldd s ldd ng prev_injct_lights =
     (let s1 = s\<lparr>ldds_for_ng := (ldds_for_ng s)(ng \<mapsto> insert ldd (members (ldds_for_ng s) ng))\<rparr>
      in connect_lights s1 prev_injct_lights ldd ng)"

fun connect_ldds :: "registry \<Rightarrow> light \<Rightarrow> ldd list \<Rightarrow> neuron_group \<Rightarrow> error + registry" where
  "connect_ldds s light [] ng = Inr s"
| "connect_ldds s light (ldd # ldds) ng =
     (case connect_light_to_ldd_for_ng s light ldd ng of
        Inl e \<Rightarrow> Inl e
      | Inr s' \<Rightarrow> connect_ldds s' light ldds ng)"

definition register_light ::
  "registry \<Rightarrow> light \<Rightarrow> neuron_group \<Rightarrow> ldd list \<Rightarrow> error + registry" where
  "register_light s light ng prev_injct_ldds =
     (let s1 = s\<lparr>lights_for_ng := (lights_for_ng s)(ng \<mapsto> insert light (members (lights_for_ng s) ng))\<rparr>
      in connect_ldds s1 light prev_injct_ldds ng)"

text \<open>
  \<open>register\<close> looks for the class names Light and LightDependent among the ancestors of
  the device's class, Light first; a device of neither kind is ignored.
\<close>

datatype device = LightDevice light | LightDependentDevice ldd | OtherDevice

fun register ::
  "registry \<Rightarrow> device \<Rightarrow> neuron_group \<Rightarrow> ldd list \<Rightarrow> light list \<Rightarrow> error + registry" where
  "register s (LightDevice light) ng ldds lights = register_light s light ng ldds"
| "register s (LightDependentDevice ldd) ng ldds lights = register_ldd s ldd ng lights"
| "register s OtherDevice ng ldds lights = Inr s"

fun remove_brian_objects :: "registry \<Rightarrow> brian_object list \<Rightarrow> error + registry" where
  "remove_brian_objects s [] = Inr s"
| "remove_brian_objects s (obj # objs) =
     (case remove_brian_object s obj of
        Inl e \<Rightarrow> Inl e
      | Inr s' \<Rightarrow> remove_brian_objects s' objs)"

fun replay ::
  "registry \<Rightarrow> (light \<times> ldd \<times> neuron_group) list \<Rightarrow> error + registry" where
  "replay s [] = Inr s"
| "replay s ((light, ldd, ng) # cxns) =
     (case connect_light_to_ldd_for_ng s light ldd ng of
        Inl e \<Rightarrow> Inl e
      | Inr s' \<Rightarrow> replay s' cxns)"

text \<open>
  \<open>NeuronGroup(n, "Irr0: ...")\<close> raises a ValueError for a size below 1 and otherwise
  starts with \<open>Irr0\<close> zero everywhere;
  \<open>light_source_ng[:n_prev].Irr0 = Irr0_prev\<close> overwrites the first \<open>n_prev\<close> entries.
\<close>

definition NeuronGroup :: "nat \<Rightarrow> error + real list" where
  "NeuronGroup n =
     (if n < 1 then Inl (ValueError ''NeuronGroup size should be at least 1, was 0'')
      else Inr (replicate n 0))"

definition set_prefix :: "nat \<Rightarrow> real list \<Rightarrow> real list \<Rightarrow> real list" where
  "set_prefix n_prev vals xs = take n_prev vals @ drop n_prev xs"

definition light_prop_syn_objects :: "registry \<Rightarrow> brian_object list" where
  "light_prop_syn_objects s = map (\<lambda>((ldd, ng), syn). LightPropSyn ldd ng) (light_prop_syns s)"

text \<open>
  \<open>init_register_light\<close>; \<open>prev_cxns\<close> is the order in which the loop of the replay
  visits the copied connection set.
\<close>

definition init_register_light ::
  "registry \<Rightarrow> light \<Rightarrow> (light \<times> ldd \<times> neuron_group) list \<Rightarrow> error + registry" where
  "init_register_light s light prev_cxns =
     (case (case light_source_ng s of
              Some Irr0 \<Rightarrow>
                (case remove_brian_object s LightSourceNG of
                   Inl e \<Rightarrow> Inl e
                 | Inr s' \<Rightarrow> Inr (Irr0, length Irr0, s'))
            | None \<Rightarrow> Inr ([], 0, s)) of
        Inl e \<Rightarrow> Inl e
      | Inr (Irr0_prev, n_prev, s1) \<Rightarrow>
          (case NeuronGroup (n_prev + light_n light) of
             Inl e \<Rightarrow> Inl e
           | Inr ng0 \<Rightarrow>
               let ng1 = (if n_prev > 0 then set_prefix n_prev Irr0_prev ng0 else ng0);
                   s2 = add_brian_object (s1\<lparr>light_source_ng := Some ng1\<rparr>) LightSourceNG;
                   s3 = s2\<lparr>subgroup_idx_for_light :=
                            (subgroup_idx_for_light s2)(light \<mapsto> (n_prev, n_prev + light_n light))\<rparr>
               in (case remove_brian_objects s3 (light_prop_syn_objects s3) of
                     Inl e \<Rightarrow> Inl e
                   | Inr s4 \<Rightarrow>
                       let s5 = s4\<lparr>connections := {}, light_prop_syns := []\<rparr> in
                       (case replay s5 prev_cxns of
                          Inl e \<Rightarrow> Inl e
                        | Inr s6 \<Rightarrow>
                            if set prev_cxns = connections s6 then Inr s6
                            else Inl AssertionError))))"

text \<open>
  \<open>source_for_light\<close>. Indexing the NeuronGroup with a slice clips the slice to the size
  of the group and raises an IndexError when no element is left (start not below stop),
  as for the slice of a light of zero elements.
\<close>

definition source_for_light :: "registry \<Rightarrow> light \<Rightarrow> error + real list" where
  "source_for_light s light =
     (case subgroup_idx_for_light s light of
        None \<Rightarrow> Inl KeyError
      | Some i \<Rightarrow>
          (case light_source_ng s of
             None \<Rightarrow> Inl BrianError
           | Some Irr0 \<Rightarrow>
               let start = min (fst i) (length Irr0);
                   stop = min (snd i) (length Irr0)
               in if start \<ge> stop then Inl IndexError
                  else Inr (take (stop - start) (drop start Irr0))))"

subsection \<open>Reachable registries\<close>

text \<open>
  The registries a caller can build from a new one with calls that return. Besides the
  registry's own operations, a caller assigns \<open>Irr0\<close> through the view
  \<open>source_for_light\<close> returns, and Brian2's step size can change.
\<close>

inductive reachable :: "registry \<Rightarrow> bool" where
  reach_fresh: "reachable (fresh dt)"
| reach_connect:
    "reachable s \<Longrightarrow> connect_light_to_ldd_for_ng s light ldd ng = Inr s' \<Longrightarrow> reachable s'"
| reach_register_ldd:
    "reachable s \<Longrightarrow> iterates lights (members (lights_for_ng s) ng) \<Longrightarrow>
     register_ldd s ldd ng lights = Inr s' \<Longrightarrow> reachable s'"
| reach_register_light:
    "reachable s \<Longrightarrow> iterates ldds (members (ldds_for_ng s) ng) \<Longrightarrow>
     register_light s light ng ldds = Inr s' \<Longrightarrow> reachable s'"
| reach_init_register_light:
    "reachable s \<Longrightarrow> iterates prev_cxns (connections s) \<Longrightarrow>
     init_register_light s light prev_cxns = Inr s' \<Longrightarrow> reachable s'"
| reach_update_fov: "reachable s \<Longrightarrow> reachable (update_fov s new_fov)"
| reach_set_Irr0:
    "reachable s \<Longrightarrow> light_source_ng s = Some Irr0 \<Longrightarrow> length Irr0' = length Irr0 \<Longrightarrow>
     reachable (s\<lparr>light_source_ng := Some Irr0'\<rparr>)"
| reach_set_dt: "reachable s \<Longrightarrow> reachable (s\<lparr>defaultclock_dt := dt\<rparr>)"

section \<open>The transmittance model (src/cleosim/opto.py)\<close>

text \<open>
  The dict \<open>light_model_params\<close> is a record of its keys. numpy applies the function to
  arrays element by element; here it is the function of one point. \<open>kubelka_munk\<close>
  overwrites its argument with the distance it computes from \<open>r\<close> and \<open>z\<close>.
\<close>

record light_model_params =
  R0 :: real
  NAfib :: real
  param_wavelength :: real
  K :: real
  S :: real
  ntis :: real

definition default_blue :: light_model_params where
  "default_blue =
     \<lparr>R0 = 1 / 10 * (1 / 10 ^ 3), NAfib = 37 / 100, param_wavelength = 473 * (1 / 10 ^ 9),
      K = 125 / 1000 / (1 / 10 ^ 3), S = 737 / 100 / (1 / 10 ^ 3), ntis = 136 / 100\<rparr>"

definition kubelka_munk :: "light_model_params \<Rightarrow> real \<Rightarrow> real \<Rightarrow> real \<Rightarrow> real" where
  "kubelka_munk p r z dist0 =
     (let S' = S p;
          a = 1 + K p / S';
          b = sqrt (a ^ 2 - 1);
          dist = sqrt (r ^ 2 + z ^ 2)
      in b / (a * sinh (b * S' * dist) + b * cosh (b * S' * dist)))"

definition Foutz12_transmittance ::
  "light_model_params \<Rightarrow> real \<Rightarrow> real \<Rightarrow> bool \<Rightarrow> bool \<Rightarrow> bool \<Rightarrow> real" where
  "Foutz12_transmittance p r z scatter spread gaussian =
     (let (Rz, C) =
            (if spread
             then let theta_div = arcsin (NAfib p / ntis p);
                      Rz = R0 p + z * tan theta_div
                  in (Rz, (R0 p / Rz) ^ 2)
             else (R0 p, 1));
          G = (if gaussian then 1 / sqrt (2 * pi) * exp (- 2 * (r / Rz) ^ 2) else 1);
          M = (if scatter then kubelka_munk p r z (sqrt (r ^ 2 + z ^ 2)) else 1)
      in G * C * M)"

section \<open>The invariant of the registry\<close>

text \<open>
  What every reachable registry satisfies: the connection set is finite; a connected
  triple has nonzero sensitivity, an aggregator group and a registered light; every
  structure the registry owns is among its Brian objects; the coupling table has one
  entry per key.
\<close>

definition registry_inv :: "registry \<Rightarrow> bool" where
  "registry_inv s \<longleftrightarrow>
     finite (connections s) \<and>
     (\<forall>(l, d, g) \<in> connections s.
        epsilon d (wavelength l) \<noteq> 0 \<and> light_agg_ngs d (ng_name g) \<noteq> None \<and>
        subgroup_idx_for_light s l \<noteq> None) \<and>
     (light_source_ng s \<noteq> None \<longrightarrow> LightSourceNG \<in> brian_objects s) \<and>
     (\<forall>(k, syn) \<in> set (light_prop_syns s).
        LightPropSyn (fst k) (snd k) \<in> brian_objects s \<and>
        light_agg_ngs (fst k) (ng_name (snd k)) \<noteq> None) \<and>
     distinct (map fst (light_prop_syns s))"

text \<open>
  Every slice lies inside the container of the light sources, and a container that
  exists has at least one element.
\<close>

definition slices_in_range :: "registry \<Rightarrow> bool" where
  "slices_in_range s \<longleftrightarrow>
     (\<forall>l a b. subgroup_idx_for_light s l = Some (a, b) \<longrightarrow>
        a \<le> b \<and> (\<exists>Irr0. light_source_ng s = Some Irr0 \<and> b \<le> length Irr0)) \<and>
     (\<forall>Irr0. light_source_ng s = Some Irr0 \<longrightarrow> 0 < length Irr0)"

section \<open>Example objects\<close>

text \<open>
  A population \<open>P\<close> of two points on the axis, the aggregator group a device holds for it,
  two lights, a device \<open>D\<close> sensitive to every wavelength and a device \<open>Z\<close> sensitive
  to none.
\<close>

definition ng_P :: neuron_group where
  "ng_P = \<lparr>ng_name = ''P'', ng_N = 2, ng_coords = [(0, 0, 0), (0, 0, 1 / 1000)]\<rparr>"

definition agg_P :: neuron_group where
  "agg_P = \<lparr>ng_name = ''light_agg_P'', ng_N = 2, ng_coords = []\<rparr>"

definition light_L1 :: light where
  "light_L1 = \<lparr>light_repr = ''L1'', light_n = 1, wavelength = 1 / 10 ^ 6, scan_freq = 1,
               transmittance = (\<lambda>cs k j. 1 / 2)\<rparr>"

definition light_L2 :: light where
  "light_L2 = \<lparr>light_repr = ''L2'', light_n = 3, wavelength = 1 / 10 ^ 6, scan_freq = 2,
               transmittance = (\<lambda>cs k j. 1 / 4)\<rparr>"

definition ldd_D :: ldd where
  "ldd_D = \<lparr>ldd_name = ''D'', epsilon = (\<lambda>w. 1), light_agg_ngs = [''P'' \<mapsto> agg_P]\<rparr>"

definition ldd_Z :: ldd where
  "ldd_Z = \<lparr>ldd_name = ''Z'', epsilon = (\<lambda>w. 0), light_agg_ngs = [''P'' \<mapsto> agg_P]\<rparr>"

text \<open>
  An example run, with a step size of 10 ms. \<open>st_L1\<close>: the light \<open>L1\<close> is registered and
  its irradiance set to 5. \<open>st_D\<close>: \<open>L1\<close> and then \<open>D\<close> are injected into \<open>P\<close>, which
  connects them. \<open>st_L2\<close>: the light \<open>L2\<close>, of three elements, is registered, which
  rebuilds the container and replays the connection. \<open>st_both\<close>: \<open>L2\<close> is connected to
  \<open>D\<close> too.
\<close>

definition Ephoton_L :: real where
  "Ephoton_L = 663 / 10 ^ 36 * (2998 * 10 ^ 5) / (1 / 10 ^ 6)"

definition st_L1 :: registry where
  "st_L1 = \<lparr>subgroup_idx_for_light = [light_L1 \<mapsto> (0, 1)], light_source_ng = Some [5],
      ldds_for_ng = Map.empty, lights_for_ng = Map.empty,
      light_prop_syns = [], connections = {},
      raster_fov = 500 * (1 / 10 ^ 6), raster_enable = 0,
      brian_objects = {LightSourceNG}, warnings_emitted = [], defaultclock_dt = 1 / 100\<rparr>"

definition syn_D1 :: synapses where
  "syn_D1 = \<lparr>syn_T = [[1 / 2, 1 / 2]], syn_scale = [[Finite (25 / 4), Finite (25 / 4)]],
       syn_epsilon = [[1, 1]], syn_Ephoton = [[Ephoton_L, Ephoton_L]],
       syn_raster_enable = [[0, 0]], syn_scan_period = [[Finite 1, Finite 1]],
       syn_raster_dwell_time = [[Finite (1 / 625), Finite (1 / 625)]]\<rparr>"

definition st_D :: registry where
  "st_D = \<lparr>subgroup_idx_for_light = [light_L1 \<mapsto> (0, 1)], light_source_ng = Some [5],
      ldds_for_ng = [ng_P \<mapsto> {ldd_D}], lights_for_ng = [ng_P \<mapsto> {light_L1}],
      light_prop_syns = [((ldd_D, ng_P), syn_D1)], connections = {(light_L1, ldd_D, ng_P)},
      raster_fov = 500 * (1 / 10 ^ 6), raster_enable = 0,
      brian_objects = {LightPropSyn ldd_D ng_P, LightSourceNG}, warnings_emitted = [],
      defaultclock_dt = 1 / 100\<rparr>"

definition syn_D2 :: synapses where
  "syn_D2 = \<lparr>syn_T = [[1 / 2, 1 / 2], [0, 0], [0, 0], [0, 0]],
       syn_scale =
         [[Finite (25 / 4), Finite (25 / 4)],
          [Finite (25 / 4), Finite (25 / 4)],
          [Finite (25 / 4), Finite (25 / 4)],
          [Finite (25 / 4), Finite (25 / 4)]],
       syn_epsilon = [[1, 1], [0, 0], [0, 0], [0, 0]],
       syn_Ephoton = [[Ephoton_L, Ephoton_L], [1, 1], [1, 1], [1, 1]],
       syn_raster_enable = [[0, 0], [0, 0], [0, 0], [0, 0]],
       syn_scan_period =
         [[Finite 1, Finite 1],
          [Finite 1, Finite 1],
          [Finite 1, Finite 1],
          [Finite 1, Finite 1]],
       syn_raster_dwell_time =
           [[Finite (1 / 625), Finite (1 / 625)],
            [Finite (1 / 625), Finite (1 / 625)],
            [Finite (1 / 625), Finite (1 / 625)],
            [Finite (1 / 625), Finite (1 / 625)]]\<rparr>"

definition st_L2 :: registry where
  "st_L2 = \<lparr>subgroup_idx_for_light = [light_L1 \<mapsto> (0, 1), light_L2 \<mapsto> (1, 4)],
      light_source_ng = Some [5, 0, 0, 0],
      ldds_for_ng = [ng_P \<mapsto> {ldd_D}], lights_for_ng = [ng_P \<mapsto> {light_L1}],
      light_prop_syns = [((ldd_D, ng_P), syn_D2)], connections = {(light_L1, ldd_D, ng_P)},
      raster_fov = 500 * (1 / 10 ^ 6), raster_enable = 0,
      brian_objects = {LightPropSyn ldd_D ng_P, LightSourceNG}, warnings_emitted = [],
      defaultclock_dt = 1 / 100\<rparr>"

definition syn_D3 :: synapses where
  "syn_D3 = \<lparr>syn_T = [[1 / 2, 1 / 2], [1 / 4, 1 / 4], [1 / 4, 1 / 4], [1 / 4, 1 / 4]],
       syn_scale =
         [[Finite (25 / 2), Finite (25 / 2)],
          [Finite (25 / 2), Finite (25 / 2)],
          [Finite (25 / 2), Finite (25 / 2)],
          [Finite (25 / 2), Finite (25 / 2)]],
       syn_epsilon = [[1, 1], [1, 1], [1, 1], [1, 1]],
       syn_Ephoton = [[Ephoton_L, Ephoton_L], [Ephoton_L, Ephoton_L], [Ephoton_L, Ephoton_L],
                      [Ephoton_L, Ephoton_L]],
       syn_raster_enable = [[0, 0], [0, 0], [0, 0], [0, 0]],
       syn_scan_period =
         [[Finite (1 / 2), Finite (1 / 2)],
          [Finite (1 / 2), Finite (1 / 2)],
          [Finite (1 / 2), Finite (1 / 2)],
          [Finite (1 / 2), Finite (1 / 2)]],
       syn_raster_dwell_time =
           [[Finite (1 / 1250), Finite (1 / 1250)],
            [Finite (1 / 1250), Finite (1 / 1250)],
            [Finite (1 / 1250), Finite (1 / 1250)],
            [Finite (1 / 1250), Finite (1 / 1250)]]\<rparr>"

definition st_both :: registry where
  "st_both = st_L2\<lparr>light_prop_syns := [((ldd_D, ng_P), syn_D3)],
                  connections := {(light_L2, ldd_D, ng_P), (light_L1, ldd_D, ng_P)}\<rparr>"






section \<open>Facts about connecting\<close>

lemma get_or_create_frame:
  assumes "get_or_create_light_prop_syn s ldd ng = Inr (syn, s1)"
  shows "connections s1 = connections s"
    and "subgroup_idx_for_light s1 = subgroup_idx_for_light s"
    and "light_source_ng s1 = light_source_ng s"
    and "raster_fov s1 = raster_fov s"
    and "raster_enable s1 = raster_enable s"
    and "defaultclock_dt s1 = defaultclock_dt s"
    and "ldds_for_ng s1 = ldds_for_ng s"
    and "lights_for_ng s1 = lights_for_ng s"
    and "warnings_emitted s1 = warnings_emitted s"
    and "map_of (light_prop_syns s1) (ldd, ng) = Some syn"
  using assms
  by (auto simp: get_or_create_light_prop_syn_def add_brian_object_def Let_def map_add_def
           split: option.splits)


lemma get_or_create_inv:
  assumes "get_or_create_light_prop_syn s ldd ng = Inr (syn, s1)" and "registry_inv s"
  shows "registry_inv s1 \<and> light_agg_ngs ldd (ng_name ng) \<noteq> None"
proof (cases "map_of (light_prop_syns s) (ldd, ng)")
  case None
  then have notin: "(ldd, ng) \<notin> fst ` set (light_prop_syns s)"
    by (simp add: map_of_eq_None_iff)
  from assms(1) None obtain agg src where
    agg: "light_agg_ngs ldd (ng_name ng) = Some agg" and
    src: "light_source_ng s = Some src" and
    s1: "s1 = s\<lparr>brian_objects := insert (LightPropSyn ldd ng) (brian_objects s),
                 light_prop_syns := light_prop_syns s @ [((ldd, ng), syn)]\<rparr>"
    by (auto simp: get_or_create_light_prop_syn_def add_brian_object_def Let_def
             split: option.splits)
  show ?thesis
    using assms(2) notin agg
    by (auto simp: registry_inv_def s1)
next
  case (Some syn0)
  then have "s1 = s"
    using assms(1) by (simp add: get_or_create_light_prop_syn_def)
  moreover have "((ldd, ng), syn0) \<in> set (light_prop_syns s)"
    using Some by (rule map_of_SomeD)
  ultimately show ?thesis
    using assms(2) by (auto simp: registry_inv_def)
qed

lemma connect_Inr_cases:
  assumes "connect_light_to_ldd_for_ng s light ldd ng = Inr s'"
    and "epsilon ldd (wavelength light) \<noteq> 0"
  obtains syn s1 i_source where
    "get_or_create_light_prop_syn s ldd ng = Inr (syn, s1)"
    "(light, ldd, ng) \<notin> connections s1"
    "subgroup_idx_for_light s1 light = Some i_source"
    "s' = s1\<lparr>light_prop_syns :=
              AList.update (ldd, ng)
                (write_edges s1 light ng (epsilon ldd (wavelength light)) i_source syn)
                (light_prop_syns s1),
            connections := insert (light, ldd, ng) (connections s1)\<rparr>"
  using assms
  by (auto simp: connect_light_to_ldd_for_ng_def Let_def
           split: sum.splits option.splits if_splits prod.splits)

lemma connect_inv:
  assumes "connect_light_to_ldd_for_ng s light ldd ng = Inr s'" and "registry_inv s"
  shows "registry_inv s'"
proof (cases "epsilon ldd (wavelength light) = 0")
  case True
  then show ?thesis
    using assms by (simp add: connect_light_to_ldd_for_ng_def)
next
  case False
  with assms(1) obtain syn s1 i_source where
    g: "get_or_create_light_prop_syn s ldd ng = Inr (syn, s1)" and
    idx: "subgroup_idx_for_light s1 light = Some i_source" and
    s': "s' = s1\<lparr>light_prop_syns :=
              AList.update (ldd, ng)
                (write_edges s1 light ng (epsilon ldd (wavelength light)) i_source syn)
                (light_prop_syns s1),
            connections := insert (light, ldd, ng) (connections s1)\<rparr>"
    by (rule connect_Inr_cases)
  from get_or_create_inv [OF g assms(2)]
  have inv1: "registry_inv s1" and agg: "light_agg_ngs ldd (ng_name ng) \<noteq> None"
    by simp_all
  have key: "(ldd, ng) \<in> fst ` set (light_prop_syns s1)"
    using get_or_create_frame(10) [OF g] by (metis domI dom_map_of_conv_image_fst)
  have keys: "map fst (AList.update (ldd, ng) v (light_prop_syns s1)) = map fst (light_prop_syns s1)" for v
    using key by (simp add: update_keys)
  have mem: "(k, x) \<in> set (AList.update (ldd, ng) v (light_prop_syns s1)) \<Longrightarrow>
             k \<in> fst ` set (light_prop_syns s1)" for k x v
    using keys [of v] by (metis fst_conv image_eqI list.set_map)
  show ?thesis
    unfolding registry_inv_def
  proof (intro conjI)
    show "finite (connections s')"
      using inv1 by (simp add: s' registry_inv_def)
    show "\<forall>(l, d, g)\<in>connections s'.
       epsilon d (wavelength l) \<noteq> 0 \<and>
       light_agg_ngs d (ng_name g) \<noteq> None \<and> subgroup_idx_for_light s' l \<noteq> None"
      using inv1 False agg idx by (auto simp: s' registry_inv_def)
    show "light_source_ng s' \<noteq> None \<longrightarrow> LightSourceNG \<in> brian_objects s'"
      using inv1 by (simp add: s' registry_inv_def)
    show "\<forall>(k, syn)\<in>set (light_prop_syns s').
       LightPropSyn (fst k) (snd k) \<in> brian_objects s' \<and>
       light_agg_ngs (fst k) (ng_name (snd k)) \<noteq> None"
    proof (clarify)
      fix d g x
      assume "((d, g), x) \<in> set (light_prop_syns s')"
      then have "(d, g) \<in> fst ` set (light_prop_syns s1)"
        using mem by (simp add: s')
      then obtain y where "((d, g), y) \<in> set (light_prop_syns s1)"
        by auto
      then show "LightPropSyn (fst (d, g)) (snd (d, g)) \<in> brian_objects s' \<and>
           light_agg_ngs (fst (d, g)) (ng_name (snd (d, g))) \<noteq> None"
        using inv1 by (auto simp: s' registry_inv_def)
    qed
    show "distinct (map fst (light_prop_syns s'))"
      using inv1 keys by (simp add: s' registry_inv_def)
  qed
qed

lemma connect_succeeds:
  assumes eps: "epsilon ldd (wavelength light) \<noteq> 0"
    and agg: "light_agg_ngs ldd (ng_name ng) \<noteq> None"
    and src: "light_source_ng s \<noteq> None"
    and new: "(light, ldd, ng) \<notin> connections s"
    and idx: "subgroup_idx_for_light s light \<noteq> None"
  shows "\<exists>s'. connect_light_to_ldd_for_ng s light ldd ng = Inr s' \<and>
              connections s' = insert (light, ldd, ng) (connections s) \<and>
              subgroup_idx_for_light s' = subgroup_idx_for_light s \<and>
              light_source_ng s' = light_source_ng s"
proof -
  have "\<exists>syn s1. get_or_create_light_prop_syn s ldd ng = Inr (syn, s1)"
    using agg src
    by (cases "map_of (light_prop_syns s) (ldd, ng)")
       (auto simp: get_or_create_light_prop_syn_def Let_def)
  then obtain syn s1 where g: "get_or_create_light_prop_syn s ldd ng = Inr (syn, s1)"
    by blast
  note fr = get_or_create_frame [OF g]
  from idx obtain i_source where i: "subgroup_idx_for_light s1 light = Some i_source"
    by (auto simp: fr)
  show ?thesis
    using eps g new i fr(1,2,3)
    by (simp add: connect_light_to_ldd_for_ng_def)
qed

lemma replay_succeeds:
  assumes "light_source_ng s \<noteq> None" and "distinct cxns" and "set cxns \<inter> connections s = {}"
    and "\<forall>(l, d, g) \<in> set cxns.
           epsilon d (wavelength l) \<noteq> 0 \<and> light_agg_ngs d (ng_name g) \<noteq> None \<and>
           subgroup_idx_for_light s l \<noteq> None"
  shows "\<exists>s'. replay s cxns = Inr s' \<and> connections s' = connections s \<union> set cxns"
  using assms
proof (induction cxns arbitrary: s)
  case Nil
  then show ?case by simp
next
  case (Cons c cxns)
  obtain l d g where c: "c = (l, d, g)"
    by (cases c) auto
  from Cons.prems c have
    "epsilon d (wavelength l) \<noteq> 0" "light_agg_ngs d (ng_name g) \<noteq> None"
    "subgroup_idx_for_light s l \<noteq> None" "(l, d, g) \<notin> connections s"
    by auto
  from connect_succeeds [OF this(1,2) Cons.prems(1) this(4,3)]
  obtain s1 where
    s1: "connect_light_to_ldd_for_ng s l d g = Inr s1"
      "connections s1 = insert (l, d, g) (connections s)"
      "subgroup_idx_for_light s1 = subgroup_idx_for_light s"
      "light_source_ng s1 = light_source_ng s"
    by blast
  have "\<exists>s'. replay s1 cxns = Inr s' \<and> connections s' = connections s1 \<union> set cxns"
  proof (rule Cons.IH)
    show "light_source_ng s1 \<noteq> None"
      using Cons.prems(1) s1(4) by simp
    show "distinct cxns"
      using Cons.prems(2) by simp
    show "set cxns \<inter> connections s1 = {}"
      using Cons.prems(2,3) c s1(2) by auto
    show "\<forall>(l, d, g)\<in>set cxns.
       epsilon d (wavelength l) \<noteq> 0 \<and>
       light_agg_ngs d (ng_name g) \<noteq> None \<and> subgroup_idx_for_light s1 l \<noteq> None"
      using Cons.prems(4) s1(3) by auto
  qed
  then show ?case
    using s1(1,2) c by auto
qed

lemma replay_inv:
  "replay s cxns = Inr s' \<Longrightarrow> registry_inv s \<Longrightarrow> registry_inv s'"
proof (induction cxns arbitrary: s)
  case Nil
  then show ?case by simp
next
  case (Cons c cxns)
  obtain l d g where c: "c = (l, d, g)"
    by (cases c) auto
  from Cons.prems(1) c obtain s1 where
    "connect_light_to_ldd_for_ng s l d g = Inr s1" "replay s1 cxns = Inr s'"
    by (auto split: sum.splits)
  then show ?case
    using Cons.IH Cons.prems(2) connect_inv by blast
qed

lemma connect_lights_inv:
  "connect_lights s lights ldd ng = Inr s' \<Longrightarrow> registry_inv s \<Longrightarrow> registry_inv s'"
proof (induction lights arbitrary: s)
  case Nil
  then show ?case by simp
next
  case (Cons l lights)
  from Cons.prems(1) obtain s1 where
    "connect_light_to_ldd_for_ng s l ldd ng = Inr s1" "connect_lights s1 lights ldd ng = Inr s'"
    by (auto split: sum.splits)
  then show ?case
    using Cons.IH Cons.prems(2) connect_inv by blast
qed

lemma connect_ldds_inv:
  "connect_ldds s light ldds ng = Inr s' \<Longrightarrow> registry_inv s \<Longrightarrow> registry_inv s'"
proof (induction ldds arbitrary: s)
  case Nil
  then show ?case by simp
next
  case (Cons d ldds)
  from Cons.prems(1) obtain s1 where
    "connect_light_to_ldd_for_ng s light d ng = Inr s1" "connect_ldds s1 light ldds ng = Inr s'"
    by (auto split: sum.splits)
  then show ?case
    using Cons.IH Cons.prems(2) connect_inv by blast
qed

lemma register_ldd_inv:
  "register_ldd s ldd ng lights = Inr s' \<Longrightarrow> registry_inv s \<Longrightarrow> registry_inv s'"
  unfolding register_ldd_def Let_def
  by (erule connect_lights_inv) (simp add: registry_inv_def)

lemma register_light_inv:
  "register_light s light ng ldds = Inr s' \<Longrightarrow> registry_inv s \<Longrightarrow> registry_inv s'"
  unfolding register_light_def Let_def
  by (erule connect_ldds_inv) (simp add: registry_inv_def)

lemma remove_brian_objects_succeeds:
  "distinct objs \<Longrightarrow> set objs \<subseteq> brian_objects s \<Longrightarrow>
   remove_brian_objects s objs = Inr (s\<lparr>brian_objects := brian_objects s - set objs\<rparr>)"
proof (induction objs arbitrary: s)
  case Nil
  then show ?case by simp
next
  case (Cons obj objs)
  have "remove_brian_objects (s\<lparr>brian_objects := brian_objects s - {obj}\<rparr>) objs =
        Inr (s\<lparr>brian_objects := brian_objects s - {obj}\<rparr>
              \<lparr>brian_objects := brian_objects (s\<lparr>brian_objects := brian_objects s - {obj}\<rparr>) - set objs\<rparr>)"
    using Cons.prems by (intro Cons.IH) auto
  moreover have "brian_objects s - {obj} - set objs = brian_objects s - insert obj (set objs)"
    by auto
  ultimately show ?case
    using Cons.prems by (simp add: remove_brian_object_def)
qed

lemma remove_brian_objects_frame:
  "remove_brian_objects s objs = Inr s' \<Longrightarrow>
   s' = s\<lparr>brian_objects := brian_objects s - set objs\<rparr>"
proof (induction objs arbitrary: s)
  case Nil
  then show ?case by simp
next
  case (Cons obj objs)
  from Cons.prems obtain s1 where
    s1: "remove_brian_object s obj = Inr s1" "remove_brian_objects s1 objs = Inr s'"
    by (auto split: sum.splits)
  from s1(1) have "s1 = s\<lparr>brian_objects := brian_objects s - {obj}\<rparr>"
    by (auto simp: remove_brian_object_def split: if_splits)
  moreover have "brian_objects s - {obj} - set objs = brian_objects s - insert obj (set objs)"
    by auto
  ultimately show ?case
    using Cons.IH [OF s1(2)] by simp
qed

lemma connect_frame:
  assumes "connect_light_to_ldd_for_ng s light ldd ng = Inr s'"
  shows "subgroup_idx_for_light s' = subgroup_idx_for_light s"
    and "light_source_ng s' = light_source_ng s"
    and "raster_fov s' = raster_fov s"
    and "raster_enable s' = raster_enable s"
    and "defaultclock_dt s' = defaultclock_dt s"
    and "ldds_for_ng s' = ldds_for_ng s"
    and "lights_for_ng s' = lights_for_ng s"
    and "warnings_emitted s' = warnings_emitted s"
proof -
  have "subgroup_idx_for_light s' = subgroup_idx_for_light s \<and>
        light_source_ng s' = light_source_ng s \<and> raster_fov s' = raster_fov s \<and>
        raster_enable s' = raster_enable s \<and> defaultclock_dt s' = defaultclock_dt s \<and>
        ldds_for_ng s' = ldds_for_ng s \<and> lights_for_ng s' = lights_for_ng s \<and>
        warnings_emitted s' = warnings_emitted s"
  proof (cases "epsilon ldd (wavelength light) = 0")
    case True
    then show ?thesis
      using assms by (simp add: connect_light_to_ldd_for_ng_def)
  next
    case False
    with assms obtain syn s1 i_source where
      g: "get_or_create_light_prop_syn s ldd ng = Inr (syn, s1)" and
      s': "s' = s1\<lparr>light_prop_syns :=
                AList.update (ldd, ng)
                  (write_edges s1 light ng (epsilon ldd (wavelength light)) i_source syn)
                  (light_prop_syns s1),
              connections := insert (light, ldd, ng) (connections s1)\<rparr>"
      by (rule connect_Inr_cases)
    show ?thesis
      using get_or_create_frame [OF g] by (simp add: s')
  qed
  then show "subgroup_idx_for_light s' = subgroup_idx_for_light s"
    and "light_source_ng s' = light_source_ng s"
    and "raster_fov s' = raster_fov s"
    and "raster_enable s' = raster_enable s"
    and "defaultclock_dt s' = defaultclock_dt s"
    and "ldds_for_ng s' = ldds_for_ng s"
    and "lights_for_ng s' = lights_for_ng s"
    and "warnings_emitted s' = warnings_emitted s"
    by simp_all
qed

lemma replay_frame:
  "replay s cxns = Inr s' \<Longrightarrow>
   subgroup_idx_for_light s' = subgroup_idx_for_light s \<and> light_source_ng s' = light_source_ng s"
proof (induction cxns arbitrary: s)
  case Nil
  then show ?case by simp
next
  case (Cons c cxns)
  obtain l d g where c: "c = (l, d, g)"
    by (cases c) auto
  from Cons.prems c obtain s1 where
    s1: "connect_light_to_ldd_for_ng s l d g = Inr s1" "replay s1 cxns = Inr s'"
    by (auto split: sum.splits)
  show ?case
    using Cons.IH [OF s1(2)] connect_frame(1,2) [OF s1(1)] by simp
qed

lemma connect_lights_frame:
  "connect_lights s lights ldd ng = Inr s' \<Longrightarrow>
   subgroup_idx_for_light s' = subgroup_idx_for_light s \<and> light_source_ng s' = light_source_ng s"
proof (induction lights arbitrary: s)
  case Nil
  then show ?case by simp
next
  case (Cons l lights)
  from Cons.prems obtain s1 where
    s1: "connect_light_to_ldd_for_ng s l ldd ng = Inr s1" "connect_lights s1 lights ldd ng = Inr s'"
    by (auto split: sum.splits)
  show ?case
    using Cons.IH [OF s1(2)] connect_frame(1,2) [OF s1(1)] by simp
qed

lemma connect_ldds_frame:
  "connect_ldds s light ldds ng = Inr s' \<Longrightarrow>
   subgroup_idx_for_light s' = subgroup_idx_for_light s \<and> light_source_ng s' = light_source_ng s"
proof (induction ldds arbitrary: s)
  case Nil
  then show ?case by simp
next
  case (Cons d ldds)
  from Cons.prems obtain s1 where
    s1: "connect_light_to_ldd_for_ng s light d ng = Inr s1" "connect_ldds s1 light ldds ng = Inr s'"
    by (auto split: sum.splits)
  show ?case
    using Cons.IH [OF s1(2)] connect_frame(1,2) [OF s1(1)] by simp
qed

lemma NeuronGroup_pos: "0 < n \<Longrightarrow> NeuronGroup n = Inr (replicate n 0)"
  by (simp add: NeuronGroup_def)

lemma NeuronGroup_zero:
  "NeuronGroup 0 = Inl (ValueError ''NeuronGroup size should be at least 1, was 0'')"
  by (simp add: NeuronGroup_def)

lemma init_register_light_size:
  assumes "init_register_light s light prev_cxns = Inr s'"
  shows "0 < length (case light_source_ng s of None \<Rightarrow> [] | Some x \<Rightarrow> x) + light_n light"
proof (rule ccontr)
  assume "\<not> ?thesis"
  then have z: "length (case light_source_ng s of None \<Rightarrow> [] | Some x \<Rightarrow> x) = 0" "light_n light = 0"
    by simp_all
  have "\<exists>e. init_register_light s light prev_cxns = Inl e"
  proof (cases "light_source_ng s")
    case None
    then show ?thesis
      by (simp add: init_register_light_def z(2) NeuronGroup_zero)
  next
    case (Some x)
    with z(1) have x: "x = []"
      by simp
    show ?thesis
      by (cases "remove_brian_object s LightSourceNG")
         (simp_all add: init_register_light_def Some x z(2) NeuronGroup_zero)
  qed
  with assms show False
    by simp
qed

text \<open>The registry in which \<open>init_register_light\<close> starts the replay.\<close>

lemma init_register_light_Inr_cases:
  assumes "init_register_light s light prev_cxns = Inr s'"
  obtains Irr0 s5 where
    "Irr0 = (case light_source_ng s of None \<Rightarrow> [] | Some x \<Rightarrow> x)"
    "light_source_ng s \<noteq> None \<longrightarrow> LightSourceNG \<in> brian_objects s"
    "s5 = s\<lparr>light_source_ng := Some (Irr0 @ replicate (light_n light) 0),
            subgroup_idx_for_light :=
              (subgroup_idx_for_light s)(light \<mapsto> (length Irr0, length Irr0 + light_n light)),
            brian_objects :=
              insert LightSourceNG (brian_objects s) - set (light_prop_syn_objects s),
            connections := {}, light_prop_syns := []\<rparr>"
    "replay s5 prev_cxns = Inr s'"
    "set prev_cxns = connections s'"
    "0 < length Irr0 + light_n light"
proof (cases "light_source_ng s")
  case None
  have pos: "0 < light_n light"
    using init_register_light_size [OF assms] None by simp
  note ng = NeuronGroup_pos [OF pos]
  let ?s3 = "s\<lparr>light_source_ng := Some (replicate (light_n light) 0),
               brian_objects := insert LightSourceNG (brian_objects s),
               subgroup_idx_for_light := (subgroup_idx_for_light s)(light \<mapsto> (0, light_n light))\<rparr>"
  from assms None obtain s4 where
    s4: "remove_brian_objects ?s3 (light_prop_syn_objects ?s3) = Inr s4" and
    r: "replay (s4\<lparr>connections := {}, light_prop_syns := []\<rparr>) prev_cxns = Inr s'" and
    a: "set prev_cxns = connections s'"
    by (auto simp: init_register_light_def add_brian_object_def Let_def ng
             split: sum.splits if_splits)
  have objs: "light_prop_syn_objects ?s3 = light_prop_syn_objects s"
    by (simp add: light_prop_syn_objects_def)
  have "s4\<lparr>connections := {}, light_prop_syns := []\<rparr> =
        s\<lparr>light_source_ng := Some ([] @ replicate (light_n light) 0),
            subgroup_idx_for_light :=
              (subgroup_idx_for_light s)(light \<mapsto> (length ([]::real list), length ([]::real list) + light_n light)),
            brian_objects :=
              insert LightSourceNG (brian_objects s) - set (light_prop_syn_objects s),
            connections := {}, light_prop_syns := []\<rparr>"
    using remove_brian_objects_frame [OF s4] by (simp add: light_prop_syn_objects_def)
  with r a None pos show ?thesis
    by (intro that [of "[]"]) simp_all
next
  case (Some Irr0)
  from assms Some have mem: "LightSourceNG \<in> brian_objects s"
    by (auto simp: init_register_light_def remove_brian_object_def split: if_splits)
  have pos: "0 < length Irr0 + light_n light"
    using init_register_light_size [OF assms] Some by simp
  note ng = NeuronGroup_pos [OF pos]
  let ?ng = "if length Irr0 > 0
             then set_prefix (length Irr0) Irr0 (replicate (length Irr0 + light_n light) 0)
             else replicate (length Irr0 + light_n light) 0"
  let ?s3 = "s\<lparr>light_source_ng := Some ?ng,
               brian_objects := insert LightSourceNG (brian_objects s - {LightSourceNG}),
               subgroup_idx_for_light :=
                 (subgroup_idx_for_light s)(light \<mapsto> (length Irr0, length Irr0 + light_n light))\<rparr>"
  from assms Some mem obtain s4 where
    s4: "remove_brian_objects ?s3 (light_prop_syn_objects ?s3) = Inr s4" and
    r: "replay (s4\<lparr>connections := {}, light_prop_syns := []\<rparr>) prev_cxns = Inr s'" and
    a: "set prev_cxns = connections s'"
    by (auto simp: init_register_light_def add_brian_object_def remove_brian_object_def Let_def ng
             split: sum.splits if_splits)
  have objs: "light_prop_syn_objects ?s3 = light_prop_syn_objects s"
    by (simp add: light_prop_syn_objects_def)
  have ins: "insert LightSourceNG (brian_objects s - {LightSourceNG}) = insert LightSourceNG (brian_objects s)"
    by auto
  have "s4\<lparr>connections := {}, light_prop_syns := []\<rparr> =
        s\<lparr>light_source_ng := Some (Irr0 @ replicate (light_n light) 0),
            subgroup_idx_for_light :=
              (subgroup_idx_for_light s)(light \<mapsto> (length Irr0, length Irr0 + light_n light)),
            brian_objects :=
              insert LightSourceNG (brian_objects s) - set (light_prop_syn_objects s),
            connections := {}, light_prop_syns := []\<rparr>"
    using remove_brian_objects_frame [OF s4]
    by (simp add: light_prop_syn_objects_def ins set_prefix_def)
  with r a Some mem pos show ?thesis
    by (intro that [of Irr0]) simp_all
qed

lemma light_prop_syn_objects_distinct:
  "distinct (map fst (light_prop_syns s)) \<Longrightarrow> distinct (light_prop_syn_objects s)"
proof -
  assume d: "distinct (map fst (light_prop_syns s))"
  have eq: "light_prop_syn_objects s = map (\<lambda>k. LightPropSyn (fst k) (snd k)) (map fst (light_prop_syns s))"
    by (simp add: light_prop_syn_objects_def split_def)
  have "inj_on (\<lambda>k::ldd \<times> neuron_group. LightPropSyn (fst k) (snd k)) A" for A
    by (auto simp: inj_on_def prod_eq_iff)
  with d have "distinct (map (\<lambda>k. LightPropSyn (fst k) (snd k)) (map fst (light_prop_syns s)))"
    by (subst distinct_map) blast
  then show ?thesis
    by (simp only: eq)
qed

lemma init_register_light_succeeds:
  assumes inv: "registry_inv s" and it: "iterates prev_cxns (connections s)"
    and pos: "0 < length (case light_source_ng s of None \<Rightarrow> [] | Some x \<Rightarrow> x) + light_n light"
  shows "\<exists>s'. init_register_light s light prev_cxns = Inr s' \<and> connections s' = connections s"
proof -
  define Irr0 where "Irr0 = (case light_source_ng s of None \<Rightarrow> [] | Some x \<Rightarrow> x)"
  define s3 where "s3 = s\<lparr>light_source_ng := Some (Irr0 @ replicate (light_n light) 0),
            brian_objects := insert LightSourceNG (brian_objects s),
            subgroup_idx_for_light :=
              (subgroup_idx_for_light s)(light \<mapsto> (length Irr0, length Irr0 + light_n light))\<rparr>"
  define s5 where "s5 = s3\<lparr>brian_objects := brian_objects s3 - set (light_prop_syn_objects s3),
            connections := {}, light_prop_syns := []\<rparr>"
  have objs: "set (light_prop_syn_objects s3) \<subseteq> brian_objects s3"
    using inv by (auto simp: registry_inv_def light_prop_syn_objects_def s3_def)
  have "distinct (light_prop_syn_objects s3)"
    using inv by (intro light_prop_syn_objects_distinct) (simp add: registry_inv_def s3_def)
  from remove_brian_objects_succeeds [OF this objs]
  have rm: "remove_brian_objects s3 (light_prop_syn_objects s3) =
            Inr (s3\<lparr>brian_objects := brian_objects s3 - set (light_prop_syn_objects s3)\<rparr>)" .
  have "\<exists>s'. replay s5 prev_cxns = Inr s' \<and> connections s' = connections s5 \<union> set prev_cxns"
  proof (rule replay_succeeds)
    show "light_source_ng s5 \<noteq> None"
      by (simp add: s5_def s3_def)
    show "distinct prev_cxns"
      using it by (simp add: iterates_def)
    show "set prev_cxns \<inter> connections s5 = {}"
      by (simp add: s5_def)
    show "\<forall>(l, d, g)\<in>set prev_cxns.
       epsilon d (wavelength l) \<noteq> 0 \<and>
       light_agg_ngs d (ng_name g) \<noteq> None \<and> subgroup_idx_for_light s5 l \<noteq> None"
      using inv it by (auto simp: registry_inv_def iterates_def s5_def s3_def)
  qed
  then obtain s' where r: "replay s5 prev_cxns = Inr s'" and c: "connections s' = set prev_cxns"
    by (auto simp: s5_def)
  have eq: "set prev_cxns = connections s"
    using it by (simp add: iterates_def)
  have "init_register_light s light prev_cxns = Inr s'"
  proof (cases "light_source_ng s")
    case None
    then have "Irr0 = []"
      by (simp add: Irr0_def)
    moreover have "NeuronGroup (light_n light) = Inr (replicate (light_n light) 0)"
      using pos None by (simp add: NeuronGroup_pos)
    ultimately show ?thesis
      using None rm r c
      by (simp add: init_register_light_def add_brian_object_def Let_def s3_def s5_def)
  next
    case (Some x)
    then have x: "Irr0 = x"
      by (simp add: Irr0_def)
    have mem: "LightSourceNG \<in> brian_objects s"
      using inv Some by (simp add: registry_inv_def)
    then have ins: "insert LightSourceNG (brian_objects s - {LightSourceNG}) = insert LightSourceNG (brian_objects s)"
      by auto
    have pos': "0 < length x + light_n light"
      using pos Some by simp
    show ?thesis
      using Some mem rm r c pos'
      by (cases x)
         (simp_all add: init_register_light_def add_brian_object_def remove_brian_object_def Let_def
            NeuronGroup_pos set_prefix_def s3_def s5_def x ins)
  qed
  then show ?thesis
    using c eq by simp
qed

lemma init_register_light_inv:
  assumes "init_register_light s light prev_cxns = Inr s'" and inv: "registry_inv s"
  shows "registry_inv s'"
proof -
  from assms(1) obtain Irr0 s5 where
    s5: "s5 = s\<lparr>light_source_ng := Some (Irr0 @ replicate (light_n light) 0),
            subgroup_idx_for_light :=
              (subgroup_idx_for_light s)(light \<mapsto> (length Irr0, length Irr0 + light_n light)),
            brian_objects :=
              insert LightSourceNG (brian_objects s) - set (light_prop_syn_objects s),
            connections := {}, light_prop_syns := []\<rparr>" and
    r: "replay s5 prev_cxns = Inr s'"
    by (rule init_register_light_Inr_cases)
  have "LightSourceNG \<notin> set (light_prop_syn_objects s)"
    by (auto simp: light_prop_syn_objects_def)
  then have "registry_inv s5"
    by (simp add: registry_inv_def s5)
  with r show ?thesis
    by (rule replay_inv)
qed

lemma update_fov_inv: "registry_inv s \<Longrightarrow> registry_inv (update_fov s new_fov)"
  by (simp add: registry_inv_def update_fov_def Let_def)

lemma reachable_inv: "reachable s \<Longrightarrow> registry_inv s"
proof (induction rule: reachable.induct)
  case (reach_fresh dt)
  show ?case by (simp add: registry_inv_def fresh_def)
next
  case (reach_connect s light ldd ng s')
  then show ?case by (blast intro: connect_inv)
next
  case (reach_register_ldd s lights ng ldd s')
  then show ?case by (blast intro: register_ldd_inv)
next
  case (reach_register_light s ldds ng light s')
  then show ?case by (blast intro: register_light_inv)
next
  case (reach_init_register_light s prev_cxns light s')
  then show ?case by (blast intro: init_register_light_inv)
next
  case (reach_update_fov s new_fov)
  then show ?case by (simp add: update_fov_inv)
next
  case (reach_set_Irr0 s Irr0 Irr0')
  then show ?case by (simp add: registry_inv_def)
next
  case (reach_set_dt s dt)
  then show ?case by (simp add: registry_inv_def)
qed

lemma init_register_light_slices:
  assumes "init_register_light s light prev_cxns = Inr s'" and "slices_in_range s"
  shows "slices_in_range s'"
proof -
  from assms(1) obtain Irr0 s5 where
    Irr0: "Irr0 = (case light_source_ng s of None \<Rightarrow> [] | Some x \<Rightarrow> x)" and
    s5: "s5 = s\<lparr>light_source_ng := Some (Irr0 @ replicate (light_n light) 0),
            subgroup_idx_for_light :=
              (subgroup_idx_for_light s)(light \<mapsto> (length Irr0, length Irr0 + light_n light)),
            brian_objects :=
              insert LightSourceNG (brian_objects s) - set (light_prop_syn_objects s),
            connections := {}, light_prop_syns := []\<rparr>" and
    r: "replay s5 prev_cxns = Inr s'" and
    pos: "0 < length Irr0 + light_n light"
    by (rule init_register_light_Inr_cases)
  have old: "a \<le> b \<and> b \<le> length Irr0" if "subgroup_idx_for_light s l = Some (a, b)" for l a b
    using assms(2) that by (fastforce simp: slices_in_range_def Irr0)
  have "slices_in_range s5"
    using old pos by (fastforce simp: slices_in_range_def s5)
  then show ?thesis
    using replay_frame [OF r] by (simp add: slices_in_range_def)
qed

lemma reachable_slices_in_range: "reachable s \<Longrightarrow> slices_in_range s"
proof (induction rule: reachable.induct)
  case (reach_fresh dt)
  show ?case by (simp add: slices_in_range_def fresh_def)
next
  case (reach_connect s light ldd ng s')
  then show ?case
    using connect_frame(1,2) [of s light ldd ng s'] by (simp add: slices_in_range_def)
next
  case (reach_register_ldd s lights ng ldd s')
  from reach_register_ldd.hyps(3) have
    "subgroup_idx_for_light s' = subgroup_idx_for_light s \<and> light_source_ng s' = light_source_ng s"
    using connect_lights_frame
      [of "s\<lparr>ldds_for_ng := (ldds_for_ng s)(ng \<mapsto> insert ldd (members (ldds_for_ng s) ng))\<rparr>"
          lights ldd ng s']
    by (simp add: register_ldd_def Let_def)
  with reach_register_ldd.IH show ?case
    by (simp add: slices_in_range_def)
next
  case (reach_register_light s ldds ng light s')
  from reach_register_light.hyps(3) have
    "subgroup_idx_for_light s' = subgroup_idx_for_light s \<and> light_source_ng s' = light_source_ng s"
    using connect_ldds_frame
      [of "s\<lparr>lights_for_ng := (lights_for_ng s)(ng \<mapsto> insert light (members (lights_for_ng s) ng))\<rparr>"
          light ldds ng s']
    by (simp add: register_light_def Let_def)
  with reach_register_light.IH show ?case
    by (simp add: slices_in_range_def)
next
  case (reach_init_register_light s prev_cxns light s')
  then show ?case by (blast intro: init_register_light_slices)
next
  case (reach_update_fov s new_fov)
  then show ?case by (simp add: slices_in_range_def update_fov_def Let_def)
next
  case (reach_set_Irr0 s Irr0 Irr0')
  then show ?case by (auto simp: slices_in_range_def)
next
  case (reach_set_dt s dt)
  then show ?case by (simp add: slices_in_range_def)
qed



lemma set_rows_length [simp]: "length (set_rows i_source f rows) = length rows"
  by (simp add: set_rows_def)




section \<open>The example run\<close>

lemmas example_defs =
  ng_P_def agg_P_def light_L1_def light_L2_def ldd_D_def ldd_Z_def Ephoton_L_def

lemmas run_defs =
  connect_light_to_ldd_for_ng_def get_or_create_light_prop_syn_def add_brian_object_def
  remove_brian_object_def write_edges_def set_all_def set_rows_def Synapses_def
  coords_from_ng_def init_register_light_def NeuronGroup_def set_prefix_def
  light_prop_syn_objects_def register_ldd_def register_light_def members_def Let_def
  float_sub_def power2_eq_square eval_nat_numeral

lemma L1_neq_L2: "light_L1 \<noteq> light_L2"
  by (simp add: light_L1_def light_L2_def)

lemma run_init_L1:
  "init_register_light (fresh (1 / 100)) light_L1 [] = Inr (st_L1\<lparr>light_source_ng := Some [0]\<rparr>)"
  by (simp add: run_defs fresh_def st_L1_def light_L1_def)

lemma upt_4: "[0..<4] = [0, 1, 2, 3]"
  by (simp add: upt_rec)

lemma upt_2: "[0..<2] = [0, 1]"
  by (simp add: upt_rec)

lemma run_connect_L1:
  "connect_light_to_ldd_for_ng
     (st_L1\<lparr>lights_for_ng := [ng_P \<mapsto> {light_L1}], ldds_for_ng := [ng_P \<mapsto> {ldd_D}]\<rparr>)
     light_L1 ldd_D ng_P = Inr st_D"
  by (simp add: run_defs st_L1_def st_D_def syn_D1_def example_defs upt_2)

lemma run_register_light_L1:
  "register_light st_L1 light_L1 ng_P [] = Inr (st_L1\<lparr>lights_for_ng := [ng_P \<mapsto> {light_L1}]\<rparr>)"
  by (simp add: register_light_def members_def st_L1_def)

lemma run_register_ldd_D:
  "register_ldd (st_L1\<lparr>lights_for_ng := [ng_P \<mapsto> {light_L1}]\<rparr>) ldd_D ng_P [light_L1] = Inr st_D"
proof -
  have "register_ldd (st_L1\<lparr>lights_for_ng := [ng_P \<mapsto> {light_L1}]\<rparr>) ldd_D ng_P [light_L1] =
        connect_light_to_ldd_for_ng
          (st_L1\<lparr>lights_for_ng := [ng_P \<mapsto> {light_L1}], ldds_for_ng := [ng_P \<mapsto> {ldd_D}]\<rparr>)
          light_L1 ldd_D ng_P"
    by (simp add: register_ldd_def members_def st_L1_def split: sum.splits)
  then show ?thesis
    by (simp add: run_connect_L1)
qed


lemma run_init_L2: "init_register_light st_D light_L2 [(light_L1, ldd_D, ng_P)] = Inr st_L2"
  by (simp add: run_defs st_D_def st_L2_def syn_D1_def syn_D2_def example_defs upt_2 upt_4
        insert_commute)

lemma run_connect_L2: "connect_light_to_ldd_for_ng st_L2 light_L2 ldd_D ng_P = Inr st_both"
  by (simp add: run_defs st_both_def st_L2_def syn_D2_def syn_D3_def example_defs upt_2 upt_4)


lemma reachable_st_L1: "reachable st_L1"
proof -
  have "reachable (st_L1\<lparr>light_source_ng := Some [0]\<rparr>)"
    by (rule reach_init_register_light [OF reach_fresh _ run_init_L1])
       (simp add: iterates_def fresh_def)
  then have "reachable (st_L1\<lparr>light_source_ng := Some [0]\<rparr>\<lparr>light_source_ng := Some [5]\<rparr>)"
    by (rule reach_set_Irr0 [of _ "[0]" "[5]"]) simp_all
  then show ?thesis
    by (simp add: st_L1_def)
qed

lemma reachable_st_D: "reachable st_D"
proof -
  have "reachable (st_L1\<lparr>lights_for_ng := [ng_P \<mapsto> {light_L1}]\<rparr>)"
    by (rule reach_register_light [OF reachable_st_L1 _ run_register_light_L1])
       (simp add: iterates_def members_def st_L1_def)
  then show ?thesis
    by (rule reach_register_ldd [OF _ _ run_register_ldd_D])
       (simp add: iterates_def members_def st_L1_def)
qed

lemma reachable_st_L2: "reachable st_L2"
  by (rule reach_init_register_light [OF reachable_st_D _ run_init_L2])
     (simp add: iterates_def st_D_def)

lemma reachable_st_both: "reachable st_both"
  using reachable_st_L2 run_connect_L2 by (rule reach_connect)

section \<open>Zero sensitivity\<close>

text \<open>
  Claim C7. When the device's sensitivity at the light's wavelength is exactly zero,
  \<open>connect_light_to_ldd_for_ng\<close> returns without an error and leaves the registry as it
  was: the triple is not added to the connection set and no coupling structure is
  created.
\<close>

theorem connect_zero_sensitivity_noop:
  "epsilon ldd (wavelength light) = 0 \<Longrightarrow> connect_light_to_ldd_for_ng s light ldd ng = Inr s"
  by (simp add: connect_light_to_ldd_for_ng_def)

theorem connect_zero_sensitivity_noop_witness:
  "epsilon ldd_Z (wavelength light_L1) = 0 \<and>
   connect_light_to_ldd_for_ng (fresh (1 / 10000)) light_L1 ldd_Z ng_P = Inr (fresh (1 / 10000)) \<and>
   connections (fresh (1 / 10000)) = {} \<and> light_prop_syns (fresh (1 / 10000)) = []"
proof -
  have z: "epsilon ldd_Z (wavelength light_L1) = 0"
    by (simp add: ldd_Z_def)
  show ?thesis
    using z connect_zero_sensitivity_noop [OF z, of "fresh (1 / 10000)" ng_P]
    by (simp add: fresh_def)
qed

section \<open>The field of view\<close>

text \<open>
  Claim C3, as the code has it. \<open>update_fov\<close> sets the raster-enable flag to 1 on every
  call and stores the new field of view; it emits one warning exactly when the new value
  differs from the stored one, whether or not rastering was enabled before. A new
  registry stores the default of 500 micrometres, so \<open>update_fov 100\<close> followed by
  \<open>update_fov 200\<close> keeps 200 and emits a warning at each of the two calls.
\<close>

theorem update_fov_enables_and_warns_on_change:
  "raster_enable (update_fov s new_fov) = 1 \<and>
   raster_fov (update_fov s new_fov) = new_fov \<and>
   warnings_emitted (update_fov s new_fov) =
     warnings_emitted s @ (if raster_fov s = new_fov then [] else [fov_warning]) \<and>
   raster_fov (update_fov (update_fov (fresh dt) 100) 200) = 200 \<and>
   warnings_emitted (update_fov (fresh dt) 100) = [fov_warning] \<and>
   warnings_emitted (update_fov (update_fov (fresh dt) 100) 200) = [fov_warning, fov_warning]"
  by (simp add: update_fov_def fresh_def Let_def)

text \<open>
  The two calls on a new registry emit two warnings, not one.
\<close>

theorem update_fov_two_calls_two_warnings:
  "length (warnings_emitted (update_fov (update_fov (fresh (1 / 10000)) 100) 200)) = 2 \<and>
   length (warnings_emitted (update_fov (update_fov (fresh (1 / 10000)) 100) 200)) \<noteq> 1"
  by (simp add: update_fov_def fresh_def Let_def)

section \<open>Rebuilding the light-source container\<close>

text \<open>
  Claim C1. In every reachable registry the connection set can be listed, and for every
  order in which the replay may visit it, registering a light source returns (no
  look-up fails and the assertion at the end of \<open>init_register_light\<close> holds) with a
  connection set equal to the one before the registration: the rebuild neither loses
  nor gains a triple. The one registration that does not return is that of a light of
  zero elements in a registry without a container: \<open>NeuronGroup(0)\<close> raises its
  ValueError before anything is changed, and the connection set of such a registry is
  empty.
\<close>

theorem rebuild_preserves_connections:
  assumes "reachable s"
  shows "(\<exists>prev_cxns. iterates prev_cxns (connections s)) \<and>
         (\<forall>prev_cxns. iterates prev_cxns (connections s) \<longrightarrow>
            (if light_source_ng s = None \<and> light_n light = 0
             then init_register_light s light prev_cxns
                    = Inl (ValueError ''NeuronGroup size should be at least 1, was 0'') \<and>
                  connections s = {}
             else (\<exists>s'. init_register_light s light prev_cxns = Inr s' \<and>
                        connections s' = connections s)))"
proof -
  have inv: "registry_inv s"
    using assms by (rule reachable_inv)
  have range: "slices_in_range s"
    using assms by (rule reachable_slices_in_range)
  have "finite (connections s)"
    using inv by (simp add: registry_inv_def)
  then have ex: "\<exists>prev_cxns. iterates prev_cxns (connections s)"
    unfolding iterates_def using finite_distinct_list by (metis)
  have raise: "init_register_light s light prev_cxns
                 = Inl (ValueError ''NeuronGroup size should be at least 1, was 0'') \<and>
               connections s = {}"
    if none: "light_source_ng s = None" and zero: "light_n light = 0" for prev_cxns
  proof
    show "init_register_light s light prev_cxns
            = Inl (ValueError ''NeuronGroup size should be at least 1, was 0'')"
      by (simp add: init_register_light_def none zero NeuronGroup_zero)
    show "connections s = {}"
    proof (rule ccontr)
      assume "connections s \<noteq> {}"
      then obtain l d g where "(l, d, g) \<in> connections s"
        by auto
      with inv obtain a b where "subgroup_idx_for_light s l = Some (a, b)"
        by (fastforce simp: registry_inv_def)
      with range have "light_source_ng s \<noteq> None"
        by (fastforce simp: slices_in_range_def)
      with none show False
        by simp
    qed
  qed
  have return: "\<exists>s'. init_register_light s light prev_cxns = Inr s' \<and>
                     connections s' = connections s"
    if it: "iterates prev_cxns (connections s)"
      and some: "\<not> (light_source_ng s = None \<and> light_n light = 0)" for prev_cxns
  proof -
    have "0 < length (case light_source_ng s of None \<Rightarrow> [] | Some x \<Rightarrow> x) + light_n light"
    proof (cases "light_source_ng s")
      case None
      with some show ?thesis
        by simp
    next
      case (Some x)
      with range have "0 < length x"
        by (simp add: slices_in_range_def)
      with Some show ?thesis
        by simp
    qed
    with inv it show ?thesis
      by (rule init_register_light_succeeds)
  qed
  from ex raise return show ?thesis
    by (simp only: split: if_split) blast
qed

theorem rebuild_preserves_connections_witness:
  "reachable st_D \<and> iterates [(light_L1, ldd_D, ng_P)] (connections st_D) \<and>
   (\<exists>s'. init_register_light st_D light_L2 [(light_L1, ldd_D, ng_P)] = Inr s' \<and>
         connections s' = connections st_D)"
proof -
  have it: "iterates [(light_L1, ldd_D, ng_P)] (connections st_D)"
    by (simp add: iterates_def st_D_def)
  have src: "light_source_ng st_D \<noteq> None"
    by (simp add: st_D_def)
  from rebuild_preserves_connections [OF reachable_st_D, of light_L2, THEN conjunct2, rule_format, OF it]
  have "\<exists>s'. init_register_light st_D light_L2 [(light_L1, ldd_D, ng_P)] = Inr s' \<and>
             connections s' = connections st_D"
    using src by simp
  with it reachable_st_D show ?thesis
    by simp
qed

text \<open>
  Claim C4. When a container of \<open>n_prev\<close> elements exists in a reachable registry,
  registering a light of \<open>k\<close> elements returns, and the new container has \<open>n_prev + k\<close>
  elements, holds the previous irradiance values at the same indices and zero (the
  value a new NeuronGroup starts with) on the tail; the new light's slice is the tail
  \<open>[n_prev, n_prev + k)\<close>, and every other light keeps its slice and reads through it
  what it read before. Through \<open>source_for_light\<close> the new light reads \<open>k\<close> zeros; for
  \<open>k = 0\<close> the tail slice is empty and Brian2 refuses the empty subgroup.
\<close>

theorem resize_preserves_irradiance:
  assumes "reachable s" and "light_source_ng s = Some Irr0"
  shows "(iterates prev_cxns (connections s) \<longrightarrow>
            (\<exists>s'. init_register_light s light prev_cxns = Inr s')) \<and>
         (\<forall>s'. init_register_light s light prev_cxns = Inr s' \<longrightarrow>
            (\<exists>Irr0'. light_source_ng s' = Some Irr0' \<and>
               length Irr0' = length Irr0 + light_n light \<and>
               (\<forall>i<length Irr0. Irr0' ! i = Irr0 ! i) \<and>
               (\<forall>i. length Irr0 \<le> i \<and> i < length Irr0 + light_n light \<longrightarrow> Irr0' ! i = 0) \<and>
               subgroup_idx_for_light s' light = Some (length Irr0, length Irr0 + light_n light) \<and>
               source_for_light s' light =
                 (if light_n light = 0 then Inl IndexError
                  else Inr (replicate (light_n light) 0)) \<and>
               (\<forall>l. l \<noteq> light \<longrightarrow>
                  subgroup_idx_for_light s' l = subgroup_idx_for_light s l \<and>
                  source_for_light s' l = source_for_light s l)))"
proof (intro conjI impI allI)
  have range: "slices_in_range s"
    using assms(1) by (rule reachable_slices_in_range)
  with assms(2) have "0 < length (case light_source_ng s of None \<Rightarrow> [] | Some x \<Rightarrow> x) + light_n light"
    by (simp add: slices_in_range_def)
  moreover assume "iterates prev_cxns (connections s)"
  ultimately have "\<exists>s'. init_register_light s light prev_cxns = Inr s' \<and> connections s' = connections s"
    using reachable_inv [OF assms(1)] by (intro init_register_light_succeeds)
  then show "\<exists>s'. init_register_light s light prev_cxns = Inr s'"
    by blast
next
  fix s'
  assume ret: "init_register_light s light prev_cxns = Inr s'"
  from ret obtain Irr s5 where
    Irr: "Irr = (case light_source_ng s of None \<Rightarrow> [] | Some x \<Rightarrow> x)" and
    s5: "s5 = s\<lparr>light_source_ng := Some (Irr @ replicate (light_n light) 0),
            subgroup_idx_for_light :=
              (subgroup_idx_for_light s)(light \<mapsto> (length Irr, length Irr + light_n light)),
            brian_objects :=
              insert LightSourceNG (brian_objects s) - set (light_prop_syn_objects s),
            connections := {}, light_prop_syns := []\<rparr>" and
    r: "replay s5 prev_cxns = Inr s'"
    by (rule init_register_light_Inr_cases)
  have Irr_eq: "Irr = Irr0"
    using assms(2) by (simp add: Irr)
  have src: "light_source_ng s' = Some (Irr0 @ replicate (light_n light) 0)"
    and idx: "subgroup_idx_for_light s' =
              (subgroup_idx_for_light s)(light \<mapsto> (length Irr0, length Irr0 + light_n light))"
    using replay_frame [OF r] by (simp_all add: s5 Irr_eq)
  have range: "slices_in_range s"
    using assms(1) by (rule reachable_slices_in_range)
  have old: "source_for_light s' l = source_for_light s l" if "l \<noteq> light" for l
  proof (cases "subgroup_idx_for_light s l")
    case None
    then show ?thesis
      using that by (simp add: source_for_light_def idx)
  next
    case (Some i)
    obtain a b where i: "i = (a, b)"
      by (cases i) auto
    from range Some i assms(2) have "a \<le> b" "b \<le> length Irr0"
      by (auto simp: slices_in_range_def)
    then show ?thesis
      using that Some i assms(2) by (simp add: source_for_light_def idx src Let_def)
  qed
  have new: "source_for_light s' light =
               (if light_n light = 0 then Inl IndexError else Inr (replicate (light_n light) 0))"
    by (simp add: source_for_light_def idx src Let_def)
  show "\<exists>Irr0'. light_source_ng s' = Some Irr0' \<and>
               length Irr0' = length Irr0 + light_n light \<and>
               (\<forall>i<length Irr0. Irr0' ! i = Irr0 ! i) \<and>
               (\<forall>i. length Irr0 \<le> i \<and> i < length Irr0 + light_n light \<longrightarrow> Irr0' ! i = 0) \<and>
               subgroup_idx_for_light s' light = Some (length Irr0, length Irr0 + light_n light) \<and>
               source_for_light s' light =
                 (if light_n light = 0 then Inl IndexError
                  else Inr (replicate (light_n light) 0)) \<and>
               (\<forall>l. l \<noteq> light \<longrightarrow>
                  subgroup_idx_for_light s' l = subgroup_idx_for_light s l \<and>
                  source_for_light s' l = source_for_light s l)"
    using old new by (auto simp: src idx nth_append)
qed

theorem resize_preserves_irradiance_witness:
  "reachable st_D \<and> light_source_ng st_D = Some [5] \<and>
   init_register_light st_D light_L2 [(light_L1, ldd_D, ng_P)] = Inr st_L2 \<and>
   light_source_ng st_L2 = Some [5, 0, 0, 0] \<and>
   subgroup_idx_for_light st_L2 light_L2 = Some (1, 4) \<and>
   source_for_light st_L2 light_L2 = Inr [0, 0, 0] \<and>
   source_for_light st_L2 light_L1 = Inr [5]"
proof -
  have src: "light_source_ng st_D = Some [5]"
    by (simp add: st_D_def)
  have old: "source_for_light st_D light_L1 = Inr [5]"
    by (simp add: source_for_light_def st_D_def)
  have n: "light_n light_L2 = 3"
    by (simp add: light_L2_def)
  show ?thesis
    using resize_preserves_irradiance
            [OF reachable_st_D src, where light = light_L2
               and prev_cxns = "[(light_L1, ldd_D, ng_P)]",
             THEN conjunct2, rule_format, OF run_init_L2]
      reachable_st_D src run_init_L2 old L1_neq_L2 n
    by (auto simp: st_L2_def eval_nat_numeral)
qed

section \<open>Duplicate connections\<close>



section \<open>The oversampling scale\<close>








section \<open>The photon energy of a new coupling structure\<close>



section \<open>What a connect call writes\<close>




section \<open>Registering the same light twice\<close>

text \<open>
  Claim C5, at the input where the code breaks it. \<open>init_register_light\<close> does not look
  whether the light already has a slice: called twice for \<open>L1\<close> on a new registry it
  allocates two elements and maps \<open>L1\<close> to the second only, so that index 0 of the
  container belongs to no registered light.
\<close>

theorem registering_a_light_twice_orphans_its_slice:
  "\<exists>s1 s2. init_register_light (fresh (1 / 100)) light_L1 [] = Inr s1 \<and>
           init_register_light s1 light_L1 [] = Inr s2 \<and>
           reachable s2 \<and>
           light_source_ng s2 = Some [0, 0] \<and>
           ran (subgroup_idx_for_light s2) = {(1, 2)} \<and>
           (0::nat) \<in> {0..<length [0::real, 0]} \<and> (0::nat) \<notin> {1..<2}"
proof -
  let ?s1 = "st_L1\<lparr>light_source_ng := Some [0]\<rparr>"
  let ?s2 = "st_L1\<lparr>light_source_ng := Some [0, 0], subgroup_idx_for_light := [light_L1 \<mapsto> (1, 2)]\<rparr>"
  have r2: "init_register_light ?s1 light_L1 [] = Inr ?s2"
    by (simp add: run_defs st_L1_def light_L1_def insert_commute)
  have "reachable ?s1"
    by (rule reach_init_register_light [OF reach_fresh _ run_init_L1])
       (simp add: iterates_def fresh_def)
  then have reach: "reachable ?s2"
    by (rule reach_init_register_light [OF _ _ r2]) (simp add: iterates_def st_L1_def)
  have src: "light_source_ng ?s2 = Some [0, 0]"
    by simp
  have slices: "ran (subgroup_idx_for_light ?s2) = {(1, 2)}"
    by simp
  have idx: "(0::nat) \<in> {0..<length [0::real, 0]}" "(0::nat) \<notin> {1..<2}"
    by simp_all
  show ?thesis
    apply (rule exI [of _ ?s1])
    apply (rule exI [of _ ?s2])
    apply (intro conjI)
    apply (rule run_init_L1)
    apply (rule r2)
    apply (rule reach)
    apply (rule src)
    apply (rule slices)
    apply (rule idx(1))
    apply (rule idx(2))
    done
qed

section \<open>The transmittance\<close>

subsection \<open>The Kubelka-Munk factor\<close>

lemma km_coefficients:
  assumes "0 < K p" and "0 < S p"
  shows "1 < 1 + K p / S p" and "0 < sqrt ((1 + K p / S p) ^ 2 - 1)"
proof -
  show a: "1 < 1 + K p / S p"
    using assms by simp
  then have "1 < (1 + K p / S p) ^ 2"
    by (simp add: power2_eq_square less_1_mult)
  then show "0 < sqrt ((1 + K p / S p) ^ 2 - 1)"
    by simp
qed

lemma km_denominator:
  assumes "1 < a" and "0 < b" and "0 \<le> x" and "x \<le> y"
  shows "b \<le> a * sinh x + b * cosh x"
    and "a * sinh x + b * cosh x \<le> a * sinh y + b * cosh (y::real)"
proof -
  have "b * 1 \<le> b * cosh x"
    using assms(2) cosh_real_ge_1 [of x] by (intro mult_left_mono) simp_all
  moreover have "0 \<le> a * sinh x"
    using assms(1,3) by simp
  ultimately show "b \<le> a * sinh x + b * cosh x"
    by simp
  have "a * sinh x \<le> a * sinh y"
    using assms(1,4) by (intro mult_left_mono) simp_all
  moreover have "b * cosh x \<le> b * cosh y"
    using assms(2,3,4) by (intro mult_left_mono) (simp_all add: cosh_real_nonneg_le_iff)
  ultimately show "a * sinh x + b * cosh x \<le> a * sinh y + b * cosh y"
    by simp
qed

lemma ratio_le_one:
  fixes b d :: real
  assumes "0 < b" and "b \<le> d"
  shows "b / d \<le> 1"
  using assms by (simp add: divide_le_eq)

lemma kubelka_munk_bounds:
  assumes "0 < K p" and "0 < S p"
  shows "0 < kubelka_munk p r z d" and "kubelka_munk p r z d \<le> 1"
proof -
  let ?a = "1 + K p / S p"
  let ?b = "sqrt (?a ^ 2 - 1)"
  let ?x = "?b * S p * sqrt (r ^ 2 + z ^ 2)"
  note ab = km_coefficients [OF assms]
  have x: "0 \<le> ?x"
    using ab(2) assms(2) by simp
  have den: "?b \<le> ?a * sinh ?x + ?b * cosh ?x"
    using km_denominator(1) [OF ab x order_refl] .
  have km: "kubelka_munk p r z d = ?b / (?a * sinh ?x + ?b * cosh ?x)"
    by (simp add: kubelka_munk_def Let_def)
  show "0 < kubelka_munk p r z d"
    unfolding km using ab(2) den by (intro divide_pos_pos) linarith+
  show "kubelka_munk p r z d \<le> 1"
    unfolding km by (rule ratio_le_one [OF ab(2) den])
qed

lemma kubelka_munk_mono:
  assumes "0 < K p" and "0 < S p" and "r1 ^ 2 + z1 ^ 2 \<le> r2 ^ 2 + z2 ^ 2"
  shows "kubelka_munk p r2 z2 d2 \<le> kubelka_munk p r1 z1 d1"
proof -
  let ?a = "1 + K p / S p"
  let ?b = "sqrt (?a ^ 2 - 1)"
  let ?x = "?b * S p * sqrt (r1 ^ 2 + z1 ^ 2)"
  let ?y = "?b * S p * sqrt (r2 ^ 2 + z2 ^ 2)"
  note ab = km_coefficients [OF assms(1,2)]
  have x: "0 \<le> ?x"
    using ab(2) assms(2) by simp
  have xy: "?x \<le> ?y"
    using ab(2) assms(2,3) by (intro mult_left_mono) simp_all
  note den = km_denominator [OF ab x xy]
  have "?b / (?a * sinh ?y + ?b * cosh ?y) \<le> ?b / (?a * sinh ?x + ?b * cosh ?x)"
    using ab(2) den by (intro divide_left_mono mult_pos_pos) linarith+
  then show ?thesis
    by (simp add: kubelka_munk_def Let_def)
qed

subsection \<open>The cone and the Gaussian profile\<close>

lemma cone_slope_nonneg:
  assumes "0 \<le> NAfib p" and "NAfib p < ntis p"
  shows "0 \<le> tan (arcsin (NAfib p / ntis p))"
proof -
  have n: "0 < ntis p"
    using assms by simp
  have q0: "0 \<le> NAfib p / ntis p"
    using assms(1) n by simp
  have q1: "NAfib p / ntis p < 1"
    using assms(2) n by simp
  have "0 \<le> arcsin (NAfib p / ntis p)"
    using q0 q1 by (intro arcsin_nonneg) simp
  moreover have "arcsin (NAfib p / ntis p) < pi / 2"
    using q0 q1 arcsin_lt_bounded [of "NAfib p / ntis p"] by simp
  ultimately show ?thesis
    by (rule tan_pos_pi2_le)
qed

lemma apparent_radius_pos:
  assumes "0 < R0 p" and "0 \<le> NAfib p" and "NAfib p < ntis p" and "0 \<le> z"
  shows "0 < R0 p + z * tan (arcsin (NAfib p / ntis p))"
proof -
  have "0 \<le> z * tan (arcsin (NAfib p / ntis p))"
    using assms(4) cone_slope_nonneg [OF assms(2,3)] by (rule mult_nonneg_nonneg)
  then show ?thesis
    using assms(1) by linarith
qed

lemma gaussian_profile_mono:
  fixes R r1 r2 :: real
  assumes "\<bar>r1\<bar> \<le> \<bar>r2\<bar>"
  shows "exp (- 2 * (r2 / R) ^ 2) \<le> exp (- 2 * (r1 / R) ^ 2)"
proof -
  have "r1 ^ 2 \<le> r2 ^ 2"
    using assms by (simp add: abs_le_square_iff)
  then have "r1 ^ 2 / R ^ 2 \<le> r2 ^ 2 / R ^ 2"
    by (rule divide_right_mono) simp
  then show ?thesis
    by (simp add: power_divide)
qed

lemma gaussian_factor_bounds:
  "0 < 1 / sqrt (2 * pi) * exp (x::real)" "1 / sqrt (2 * pi) \<le> 1"
proof -
  show "0 < 1 / sqrt (2 * pi) * exp x"
    using pi_gt_zero by simp
  have "1 \<le> 2 * pi"
    using pi_ge_two by linarith
  then have "1 \<le> sqrt (2 * pi)"
    by (rule real_sqrt_ge_one)
  then show "1 / sqrt (2 * pi) \<le> 1"
    by simp
qed

lemma Foutz12_factors:
  "Foutz12_transmittance p r z scatter spread gaussian =
     (if gaussian
      then 1 / sqrt (2 * pi) *
           exp (- 2 * (r / (if spread then R0 p + z * tan (arcsin (NAfib p / ntis p)) else R0 p)) ^ 2)
      else 1) *
     (if spread then (R0 p / (R0 p + z * tan (arcsin (NAfib p / ntis p)))) ^ 2 else 1) *
     (if scatter then kubelka_munk p r z (sqrt (r ^ 2 + z ^ 2)) else 1)"
  by (simp add: Foutz12_transmittance_def Let_def)

lemma product_mono3:
  fixes g1 g2 c1 c2 m1 m2 :: real
  assumes "0 \<le> g2" "g2 \<le> g1" "0 \<le> c2" "c2 \<le> c1" "0 \<le> m2" "m2 \<le> m1"
  shows "g2 * c2 * m2 \<le> g1 * c1 * m1"
proof -
  have g1: "0 \<le> g1"
    using assms(1,2) by linarith
  have c1: "0 \<le> c1"
    using assms(3,4) by linarith
  have gc: "g2 * c2 \<le> g1 * c1"
    using assms(2,4) g1 assms(3) by (rule mult_mono)
  have "0 \<le> g1 * c1"
    using g1 c1 by (rule mult_nonneg_nonneg)
  with gc assms(6) show ?thesis
    using assms(5) by (rule mult_mono)
qed

lemma kubelka_munk_origin:
  assumes "0 < K p" and "0 < S p"
  shows "kubelka_munk p 0 0 d = 1"
  using km_coefficients(2) [OF assms] by (simp add: kubelka_munk_def Let_def)

lemma Foutz12_origin:
  assumes "0 < R0 p" and "0 < S p" and "0 < K p"
  shows "Foutz12_transmittance p 0 0 scatter spread gaussian =
           (if gaussian then 1 / sqrt (2 * pi) else 1)"
  using assms(1) kubelka_munk_origin [OF assms(3,2)] by (simp add: Foutz12_factors)

lemma Foutz12_radial_mono:
  assumes "0 < R0 p" and "0 < S p" and "0 < K p" and "0 \<le> NAfib p" and "NAfib p < ntis p"
    and "0 \<le> z" and "\<bar>r1\<bar> \<le> \<bar>r2\<bar>"
  shows "Foutz12_transmittance p r2 z scatter spread gaussian
           \<le> Foutz12_transmittance p r1 z scatter spread gaussian"
proof -
  have sq: "r1 ^ 2 + z ^ 2 \<le> r2 ^ 2 + z ^ 2"
    using assms(7) by (simp add: abs_le_square_iff)
  show ?thesis
    unfolding Foutz12_factors
  proof (rule product_mono3)
    show "0 \<le> (if gaussian
      then 1 / sqrt (2 * pi) *
           exp (- 2 * (r2 / (if spread then R0 p + z * tan (arcsin (NAfib p / ntis p)) else R0 p)) ^ 2)
      else 1)"
      using gaussian_factor_bounds(1) [THEN less_imp_le] by (cases gaussian) simp_all
    show "(if gaussian
      then 1 / sqrt (2 * pi) *
           exp (- 2 * (r2 / (if spread then R0 p + z * tan (arcsin (NAfib p / ntis p)) else R0 p)) ^ 2)
      else 1) \<le> (if gaussian
      then 1 / sqrt (2 * pi) *
           exp (- 2 * (r1 / (if spread then R0 p + z * tan (arcsin (NAfib p / ntis p)) else R0 p)) ^ 2)
      else 1)"
    proof (cases gaussian)
      case True
      have "0 \<le> 1 / sqrt (2 * pi)"
        by simp
      then show ?thesis
        using True gaussian_profile_mono [OF assms(7)] by (simp only: if_True mult_left_mono)
    next
      case False
      then show ?thesis
        by simp
    qed
    show "0 \<le> (if spread then (R0 p / (R0 p + z * tan (arcsin (NAfib p / ntis p)))) ^ 2 else 1)"
      by simp
    show "(if spread then (R0 p / (R0 p + z * tan (arcsin (NAfib p / ntis p)))) ^ 2 else 1)
            \<le> (if spread then (R0 p / (R0 p + z * tan (arcsin (NAfib p / ntis p)))) ^ 2 else 1)"
      by (rule order_refl)
    show "0 \<le> (if scatter then kubelka_munk p r2 z (sqrt (r2 ^ 2 + z ^ 2)) else 1)"
      using kubelka_munk_bounds(1) [OF assms(3,2), THEN less_imp_le] by simp
    show "(if scatter then kubelka_munk p r2 z (sqrt (r2 ^ 2 + z ^ 2)) else 1)
            \<le> (if scatter then kubelka_munk p r1 z (sqrt (r1 ^ 2 + z ^ 2)) else 1)"
      using kubelka_munk_mono [OF assms(3,2) sq] by simp
  qed
qed

lemma Foutz12_axial_mono:
  assumes "0 < R0 p" and "0 < S p" and "0 < K p" and "0 \<le> NAfib p" and "NAfib p < ntis p"
    and "0 \<le> z1" and "z1 \<le> z2" and "r = 0 \<or> \<not> gaussian \<or> \<not> spread"
  shows "Foutz12_transmittance p r z2 scatter spread gaussian
           \<le> Foutz12_transmittance p r z1 scatter spread gaussian"
proof -
  let ?t = "tan (arcsin (NAfib p / ntis p))"
  have sq: "r ^ 2 + z1 ^ 2 \<le> r ^ 2 + z2 ^ 2"
    using assms(6,7) by (simp add: power_mono)
  have R1: "0 < R0 p + z1 * ?t"
    using assms(1,4,5,6) by (rule apparent_radius_pos)
  have "z1 * ?t \<le> z2 * ?t"
    using assms(7) cone_slope_nonneg [OF assms(4,5)] by (rule mult_right_mono)
  then have R12: "R0 p + z1 * ?t \<le> R0 p + z2 * ?t"
    by simp
  have "R0 p / (R0 p + z2 * ?t) \<le> R0 p / (R0 p + z1 * ?t)"
    using assms(1) R1 R12 by (intro divide_left_mono mult_pos_pos) linarith+
  moreover have "0 \<le> R0 p / (R0 p + z2 * ?t)"
    using assms(1) R1 R12 by (intro divide_nonneg_nonneg) linarith+
  ultimately have C: "(R0 p / (R0 p + z2 * ?t)) ^ 2 \<le> (R0 p / (R0 p + z1 * ?t)) ^ 2"
    by (intro power_mono)
  show ?thesis
    unfolding Foutz12_factors
  proof (rule product_mono3)
    show "0 \<le> (if gaussian
      then 1 / sqrt (2 * pi) *
           exp (- 2 * (r / (if spread then R0 p + z2 * ?t else R0 p)) ^ 2)
      else 1)"
      using gaussian_factor_bounds(1) [THEN less_imp_le] by (cases gaussian) simp_all
    show "(if gaussian
      then 1 / sqrt (2 * pi) *
           exp (- 2 * (r / (if spread then R0 p + z2 * ?t else R0 p)) ^ 2)
      else 1) \<le> (if gaussian
      then 1 / sqrt (2 * pi) *
           exp (- 2 * (r / (if spread then R0 p + z1 * ?t else R0 p)) ^ 2)
      else 1)"
      using assms(8) by (cases gaussian; cases spread; cases "r = 0") simp_all
    show "0 \<le> (if spread then (R0 p / (R0 p + z2 * ?t)) ^ 2 else 1)"
      by simp
    show "(if spread then (R0 p / (R0 p + z2 * ?t)) ^ 2 else 1)
            \<le> (if spread then (R0 p / (R0 p + z1 * ?t)) ^ 2 else 1)"
      using C by simp
    show "0 \<le> (if scatter then kubelka_munk p r z2 (sqrt (r ^ 2 + z2 ^ 2)) else 1)"
      using kubelka_munk_bounds(1) [OF assms(3,2), THEN less_imp_le] by simp
    show "(if scatter then kubelka_munk p r z2 (sqrt (r ^ 2 + z2 ^ 2)) else 1)
            \<le> (if scatter then kubelka_munk p r z1 (sqrt (r ^ 2 + z1 ^ 2)) else 1)"
      using kubelka_munk_mono [OF assms(3,2) sq] by simp
  qed
qed

subsection \<open>The default parameters off the axis\<close>

lemma default_blue_fields:
  "R0 default_blue = 1 / 10000" "K default_blue = 125" "S default_blue = 7370"
  "NAfib default_blue / ntis default_blue = 37 / 136"
  by (simp_all add: default_blue_def)

lemma default_blue_slope:
  "1 / 4 \<le> tan (arcsin (NAfib default_blue / ntis default_blue))"
  "tan (arcsin (NAfib default_blue / ntis default_blue)) \<le> 1"
proof -
  define v :: real where "v = sqrt (1 - (37 / 136) ^ 2)"
  have c: "cos (arcsin (37 / 136 :: real)) = v"
    unfolding v_def by (rule cos_arcsin) simp_all
  have s: "sin (arcsin (37 / 136 :: real)) = 37 / 136"
    by simp
  have lo: "1 / 2 \<le> v"
    unfolding v_def by (rule real_le_rsqrt) (simp add: power2_eq_square)
  have hi: "v \<le> 1"
    unfolding v_def by (rule real_le_lsqrt) (simp_all add: power2_eq_square)
  have t: "tan (arcsin (NAfib default_blue / ntis default_blue)) = 37 / 136 / v"
    unfolding default_blue_fields tan_def c s ..
  have pos: "0 < v"
    using lo by linarith
  show "1 / 4 \<le> tan (arcsin (NAfib default_blue / ntis default_blue))"
    unfolding t using pos hi by (simp add: le_divide_eq)
  show "tan (arcsin (NAfib default_blue / ntis default_blue)) \<le> 1"
    unfolding t using pos lo by (simp add: divide_le_eq)
qed

lemma exp_3_le: "exp (3 :: real) \<le> 64"
proof -
  have h: "1 / 2 \<le> exp (- (1 / 2) :: real)"
    using exp_ge_add_one_self [of "- (1 / 2) :: real"] by simp
  have e: "exp (- 3 :: real) = exp (- (1 / 2)) ^ 6"
    using exp_of_nat_mult [of 6 "- (1 / 2) :: real"] by simp
  have n: "(1 / 2 :: real) ^ 6 = 1 / 64"
    by (simp add: power_divide)
  have "(1 / 2 :: real) ^ 6 \<le> exp (- (1 / 2)) ^ 6"
    using h by (rule power_mono) simp
  then have "1 / 64 \<le> exp (- 3 :: real)"
    unfolding n e .
  then have "1 / 64 \<le> 1 / exp (3 :: real)"
    by (simp only: exp_minus')
  moreover have "0 < exp (3 :: real)"
    by simp
  ultimately show ?thesis
    by (simp only: le_divide_eq) (simp split: if_splits)
qed

lemma exp_183_ge: "92928 < exp (183 :: real)"
proof -
  have h: "62 \<le> exp (61 :: real)"
    using exp_ge_add_one_self [of "61 :: real"] by simp
  have e: "exp (183 :: real) = exp 61 ^ 3"
    using exp_of_nat_mult [of 3 "61 :: real"] by simp
  have n: "(62 :: real) ^ 3 = 238328"
    by simp
  have "(62 :: real) ^ 3 \<le> exp 61 ^ 3"
    using h by (rule power_mono) simp
  then have "238328 \<le> exp (183 :: real)"
    unfolding n e .
  then show ?thesis
    by linarith
qed

lemma km_denominator_upper:
  fixes a b x :: real
  assumes "0 \<le> a" and "0 \<le> b" and "0 \<le> x"
  shows "a * sinh x + b * cosh x \<le> (a + b) * exp x"
proof -
  have s: "0 \<le> sinh x"
    using assms(3) by simp
  have c: "0 \<le> cosh x"
    using cosh_real_pos [of x] by linarith
  have e: "sinh x + cosh x = exp x"
    by (rule sinh_plus_cosh)
  have "sinh x \<le> exp x" "cosh x \<le> exp x"
    using s c e by linarith+
  then have "a * sinh x \<le> a * exp x" "b * cosh x \<le> b * exp x"
    using assms(1,2) by (simp_all add: mult_left_mono)
  then show ?thesis
    by (simp add: distrib_right)
qed

lemma default_blue_km_lower:
  "1 / 768 \<le> kubelka_munk default_blue (1 / 1000) (1 / 1000) d"
proof -
  define a :: real where "a = 1 + 125 / 7370"
  define b :: real where "b = sqrt (a ^ 2 - 1)"
  define dist :: real where "dist = sqrt ((1 / 1000) ^ 2 + (1 / 1000) ^ 2)"
  define x :: real where "x = b * 7370 * dist"
  have km: "kubelka_munk default_blue (1 / 1000) (1 / 1000) d = b / (a * sinh x + b * cosh x)"
    unfolding kubelka_munk_def Let_def default_blue_fields x_def dist_def b_def a_def ..
  have a1: "1 < a" and a2: "a \<le> 9 / 5"
    unfolding a_def by simp_all
  have blo: "1 / 6 \<le> b"
    unfolding b_def a_def by (rule real_le_rsqrt) (simp add: power2_eq_square)
  have bhi: "b \<le> 1 / 5"
    unfolding b_def a_def by (rule real_le_lsqrt) (simp_all add: power2_eq_square)
  have d0: "0 \<le> dist"
    unfolding dist_def by simp
  have dhi: "dist \<le> 3 / 2000"
    unfolding dist_def by (rule real_le_lsqrt) (simp_all add: power2_eq_square)
  have b0: "0 < b"
    using blo by linarith
  have x0: "0 \<le> x"
    unfolding x_def using b0 d0 by simp
  have "b * 7370 \<le> 1 / 5 * 7370"
    using bhi by simp
  then have "b * 7370 * dist \<le> 1 / 5 * 7370 * (3 / 2000)"
    using dhi d0 by (intro mult_mono) simp_all
  then have x3: "x \<le> 3"
    unfolding x_def by simp
  have "exp x \<le> exp 3"
    using x3 by simp
  then have ex: "exp x \<le> 64"
    using exp_3_le by linarith
  have "a * sinh x + b * cosh x \<le> (a + b) * exp x"
    using a1 b0 x0 by (intro km_denominator_upper) simp_all
  also have "\<dots> \<le> 2 * 64"
    using a2 bhi ex by (intro mult_mono) simp_all
  finally have den_hi: "a * sinh x + b * cosh x \<le> 128"
    by simp
  have den_lo: "b \<le> a * sinh x + b * cosh x"
    using a1 b0 x0 order_refl by (rule km_denominator(1))
  have "(1 / 6) / 128 \<le> b / (a * sinh x + b * cosh x)"
    using blo den_hi den_lo b0 by (intro frac_le) simp_all
  then show ?thesis
    unfolding km by simp
qed

lemma default_blue_valid:
  "0 < R0 default_blue" "0 < S default_blue" "0 < K default_blue"
  "0 \<le> NAfib default_blue" "NAfib default_blue < ntis default_blue"
  by (simp_all add: default_blue_def)

lemma default_blue_at_surface:
  "Foutz12_transmittance default_blue (1 / 1000) 0 True True True
     \<le> 1 / sqrt (2 * pi) * exp (- 200)"
proof -
  let ?M = "kubelka_munk default_blue (1 / 1000) 0 (sqrt ((1 / 1000) ^ 2 + 0 ^ 2))"
  have T: "Foutz12_transmittance default_blue (1 / 1000) 0 True True True
             = 1 / sqrt (2 * pi) * exp (- 200) * ?M"
    by (simp add: Foutz12_factors default_blue_fields(1))
  have "?M \<le> 1"
    using default_blue_valid(3,2) by (rule kubelka_munk_bounds(2))
  moreover have "0 \<le> 1 / sqrt (2 * pi) * exp (- 200 :: real)"
    using gaussian_factor_bounds(1) [of "- 200"] by (rule less_imp_le)
  ultimately show ?thesis
    unfolding T by (rule mult_left_le)
qed

lemma default_blue_at_depth:
  "1 / sqrt (2 * pi) * exp (- 17) * (1 / 121) * (1 / 768)
     \<le> Foutz12_transmittance default_blue (1 / 1000) (1 / 1000) True True True"
proof -
  let ?t = "tan (arcsin (NAfib default_blue / ntis default_blue))"
  define Rz where "Rz = R0 default_blue + 1 / 1000 * ?t"
  have T: "Foutz12_transmittance default_blue (1 / 1000) (1 / 1000) True True True
             = 1 / sqrt (2 * pi) * exp (- 2 * (1 / 1000 / Rz) ^ 2) * (R0 default_blue / Rz) ^ 2
               * kubelka_munk default_blue (1 / 1000) (1 / 1000)
                   (sqrt ((1 / 1000) ^ 2 + (1 / 1000) ^ 2))"
    unfolding Foutz12_factors Rz_def if_True ..
  have Rlo: "7 / 20000 \<le> Rz"
    unfolding Rz_def default_blue_fields(1) using default_blue_slope(1) by simp
  have Rhi: "Rz \<le> 11 / 10000"
    unfolding Rz_def default_blue_fields(1) using default_blue_slope(2) by simp
  have Rpos: "0 < Rz"
    using Rlo by linarith
  have "1 / 1000 / Rz \<le> 1 / 1000 / (7 / 20000)"
    using Rlo Rpos by (intro divide_left_mono mult_pos_pos) simp_all
  moreover have "0 \<le> 1 / 1000 / Rz"
    using Rpos by simp
  ultimately have "(1 / 1000 / Rz) ^ 2 \<le> (1 / 1000 / (7 / 20000)) ^ 2"
    by (intro power_mono)
  also have "\<dots> \<le> 17 / 2"
    by (simp add: power2_eq_square)
  finally have "- 17 \<le> - 2 * (1 / 1000 / Rz) ^ 2"
    by simp
  then have "exp (- 17) \<le> exp (- 2 * (1 / 1000 / Rz) ^ 2)"
    by (simp only: exp_le_cancel_iff)
  then have G: "1 / sqrt (2 * pi) * exp (- 17) \<le> 1 / sqrt (2 * pi) * exp (- 2 * (1 / 1000 / Rz) ^ 2)"
    by (intro mult_left_mono) simp_all
  have "1 / 10000 / (11 / 10000) \<le> R0 default_blue / Rz"
    unfolding default_blue_fields(1) using Rhi Rpos by (intro divide_left_mono mult_pos_pos) simp_all
  then have "(1 / 11 :: real) \<le> R0 default_blue / Rz"
    by simp
  then have "(1 / 11 :: real) ^ 2 \<le> (R0 default_blue / Rz) ^ 2"
    by (intro power_mono) simp_all
  then have C: "1 / 121 \<le> (R0 default_blue / Rz) ^ 2"
    by (simp add: power2_eq_square)
  have G0: "0 \<le> 1 / sqrt (2 * pi) * exp (- 17 :: real)"
    using gaussian_factor_bounds(1) [of "- 17"] by (rule less_imp_le)
  show ?thesis
    unfolding T using G0 G _ C _ default_blue_km_lower by (rule product_mono3) simp_all
qed

subsection \<open>The origin and the two directions\<close>

text \<open>
  Claim C8, as the code has it. For parameters with a positive fibre radius, positive
  scattering and absorption coefficients and a numerical aperture between 0 and the
  tissue index, the transmittance at the origin is \<open>1 / sqrt (2 * pi)\<close> with the Gaussian
  profile and 1 without it, so it lies in (0, 1], and no denominator of the computation
  is zero there. At a depth \<open>z \<ge> 0\<close> the transmittance does not increase with the
  magnitude of the radial offset. Along the depth, for \<open>0 \<le> z1 \<le> z2\<close>, it does not
  increase on the axis, or without the Gaussian profile, or without the spread of the cone.
\<close>

theorem transmittance_origin_and_monotone:
  assumes "0 < R0 p" and "0 < S p" and "0 < K p" and "0 \<le> NAfib p" and "NAfib p < ntis p"
  shows "Foutz12_transmittance p 0 0 scatter spread gaussian
           = (if gaussian then 1 / sqrt (2 * pi) else 1) \<and>
         0 < Foutz12_transmittance p 0 0 scatter spread gaussian \<and>
         Foutz12_transmittance p 0 0 scatter spread gaussian \<le> 1 \<and>
         ntis p \<noteq> 0 \<and> \<bar>NAfib p / ntis p\<bar> < 1 \<and>
         R0 p + 0 * tan (arcsin (NAfib p / ntis p)) \<noteq> 0 \<and> sqrt (2 * pi) \<noteq> 0 \<and> S p \<noteq> 0 \<and>
         (let a = 1 + K p / S p; b = sqrt (a ^ 2 - 1); dist = sqrt (0 ^ 2 + 0 ^ 2)
          in a * sinh (b * S p * dist) + b * cosh (b * S p * dist) \<noteq> 0) \<and>
         (0 \<le> z \<longrightarrow> \<bar>r1\<bar> \<le> \<bar>r2\<bar> \<longrightarrow>
            Foutz12_transmittance p r2 z scatter spread gaussian
              \<le> Foutz12_transmittance p r1 z scatter spread gaussian) \<and>
         (0 \<le> z1 \<longrightarrow> z1 \<le> z2 \<longrightarrow> (r = 0 \<or> \<not> gaussian \<or> \<not> spread) \<longrightarrow>
            Foutz12_transmittance p r z2 scatter spread gaussian
              \<le> Foutz12_transmittance p r z1 scatter spread gaussian)"
proof -
  note origin = Foutz12_origin [OF assms(1,2,3), of scatter spread gaussian]
  have pos: "0 < Foutz12_transmittance p 0 0 scatter spread gaussian"
    unfolding origin using gaussian_factor_bounds(1) [of 0] by simp
  have le: "Foutz12_transmittance p 0 0 scatter spread gaussian \<le> 1"
    unfolding origin using gaussian_factor_bounds(2) by simp
  have n: "0 < ntis p"
    using assms(4,5) by linarith
  have q: "\<bar>NAfib p / ntis p\<bar> < 1"
    using assms(4,5) n by simp
  have R: "R0 p + 0 * tan (arcsin (NAfib p / ntis p)) \<noteq> 0"
    using assms(1) by simp
  have c: "sqrt (2 * pi) \<noteq> 0"
    using pi_gt_zero by simp
  have den: "let a = 1 + K p / S p; b = sqrt (a ^ 2 - 1); dist = sqrt (0 ^ 2 + 0 ^ 2)
             in a * sinh (b * S p * dist) + b * cosh (b * S p * dist) \<noteq> 0"
    using km_coefficients(2) [OF assms(3,2)] by (simp add: Let_def)
  have radial: "0 \<le> z \<longrightarrow> \<bar>r1\<bar> \<le> \<bar>r2\<bar> \<longrightarrow>
            Foutz12_transmittance p r2 z scatter spread gaussian
              \<le> Foutz12_transmittance p r1 z scatter spread gaussian"
    using Foutz12_radial_mono [OF assms] by blast
  have axial: "0 \<le> z1 \<longrightarrow> z1 \<le> z2 \<longrightarrow> (r = 0 \<or> \<not> gaussian \<or> \<not> spread) \<longrightarrow>
            Foutz12_transmittance p r z2 scatter spread gaussian
              \<le> Foutz12_transmittance p r z1 scatter spread gaussian"
    using Foutz12_axial_mono [OF assms] by blast
  from origin pos le n q R c assms(2) den radial axial show ?thesis
    by (simp only: simp_thms) simp
qed

theorem transmittance_origin_and_monotone_witness:
  "Foutz12_transmittance default_blue 0 0 True True True = 1 / sqrt (2 * pi) \<and>
   Foutz12_transmittance default_blue (1 / 1000) (1 / 1000) True True True
     \<le> Foutz12_transmittance default_blue 0 (1 / 1000) True True True \<and>
   Foutz12_transmittance default_blue 0 (1 / 1000) True True True
     \<le> Foutz12_transmittance default_blue 0 0 True True True"
  using transmittance_origin_and_monotone
          [where p = default_blue and scatter = True and spread = True and gaussian = True
             and z = "1 / 1000" and ?r1.0 = 0 and ?r2.0 = "1 / 1000"
             and r = 0 and ?z1.0 = 0 and ?z2.0 = "1 / 1000"]
  by (simp add: default_blue_def)

text \<open>
  Off the axis, with the Gaussian profile and the spread both on, the cone widens with
  the depth and the Gaussian factor grows faster than the other two factors fall: with
  the default parameters, at the radial offset of 1 mm, the transmittance at the depth
  of 1 mm is larger than at the depth 0.
\<close>

theorem transmittance_grows_with_depth_off_axis:
  "Foutz12_transmittance default_blue (1 / 1000) 0 True True True
     < Foutz12_transmittance default_blue (1 / 1000) (1 / 1000) True True True"
proof -
  let ?c = "1 / sqrt (2 * pi)"
  have e: "exp (- 17 :: real) = exp (- 200) * exp 183"
    by (simp add: exp_add [symmetric])
  have c: "0 < ?c * exp (- 200 :: real)"
    by (rule gaussian_factor_bounds(1))
  have "1 < exp (183 :: real) * (1 / 121) * (1 / 768)"
    using exp_183_ge by simp
  then have "?c * exp (- 200) * 1 < ?c * exp (- 200) * (exp (183 :: real) * (1 / 121) * (1 / 768))"
    using c by (simp only: mult_less_cancel_left_pos)
  then have "?c * exp (- 200) < ?c * exp (- 17) * (1 / 121) * (1 / 768)"
    unfolding e by (simp only: mult.assoc mult_1_right)
  with default_blue_at_surface default_blue_at_depth show ?thesis
    by linarith
qed

end
